theory Spec2Isabelle
  imports Main
begin

section \<open>Memory, allocator and element type\<close>

text \<open>
  The container of \<^verbatim>\<open>MyVector.h\<close> manages raw storage through
  \<^verbatim>\<open>std::allocator_traits\<close>: \<^verbatim>\<open>allocate\<close>, \<^verbatim>\<open>construct\<close>, \<^verbatim>\<open>destroy\<close> and
  \<^verbatim>\<open>deallocate\<close>.  The model keeps an explicit store.  A slot of a buffer is either raw
  storage (never constructed, or already destroyed) or holds a live object.  A buffer
  that was handed back to the allocator stays in the store, marked as released, with its
  slots as they were at that moment: a live object in a released buffer is an object whose
  destructor never ran.

  The counters of the source are \<^verbatim>\<open>size_t\<close>.  They are modelled as \<open>nat\<close>: a counter
  only grows after a buffer of that many elements was allocated, and the model's allocator
  never refuses a request (\<^verbatim>\<open>std::bad_alloc\<close> is not modelled), so the model describes
  the executions in which memory suffices.
\<close>

datatype 'a cell = Raw | Obj 'a

record 'a block =
  cells :: "'a cell list"
  released :: bool

type_synonym 'a heap = "'a block list"

text \<open>
  A pointer \<^verbatim>\<open>T_*\<close>: \<open>Addr a i\<close> is slot \<open>i\<close> of the buffer with address \<open>a\<close>;
  \<open>Null k\<close> is the null pointer advanced by \<open>k\<close> elements, so \<open>Null 0\<close> is
  \<^verbatim>\<open>nullptr\<close>.
\<close>

datatype ptr = Null nat | Addr nat nat

fun ptr_add :: "ptr \<Rightarrow> nat \<Rightarrow> ptr" where
  "ptr_add (Null k) n = Null (k + n)"
| "ptr_add (Addr a i) n = Addr a (i + n)"

text \<open>Both uses of pointer subtraction in the source are guarded by \<^verbatim>\<open>size_ > 0\<close>.\<close>

fun ptr_sub :: "ptr \<Rightarrow> nat \<Rightarrow> ptr" where
  "ptr_sub (Null k) n = Null (k - n)"
| "ptr_sub (Addr a i) n = Addr a (i - n)"

text \<open>Outcome of a piece of code: normal return, a C++ exception, or undefined behaviour.\<close>

datatype exn = OutOfRange | RuntimeError | CtorFailure

datatype ('r, 's) outcome = Ok 'r 's | Throw exn 's | Undefined

text \<open>
  The element type \<^verbatim>\<open>T_\<close>: its copy, move and default constructors.  \<open>None\<close> is a
  constructor that throws; whether it throws is determined by the value it is given, and
  a constructor that throws leaves the store as it was.  A move constructor returns the
  new object and what is left in the moved-from object.
\<close>

record 'a elem_ops =
  copy_ctor :: "'a \<Rightarrow> 'a option"
  move_ctor :: "'a \<Rightarrow> ('a \<times> 'a) option"
  default_ctor :: "'a option"

definition cell_at :: "'a heap \<Rightarrow> ptr \<Rightarrow> 'a cell option" where
  "cell_at h p =
     (case p of
        Null k \<Rightarrow> None
      | Addr a i \<Rightarrow>
          if a < length h \<and> \<not> released (h ! a) \<and> i < length (cells (h ! a))
          then Some (cells (h ! a) ! i) else None)"

definition put_cell :: "'a heap \<Rightarrow> ptr \<Rightarrow> 'a cell \<Rightarrow> 'a heap" where
  "put_cell h p c =
     (case p of
        Null k \<Rightarrow> h
      | Addr a i \<Rightarrow> h[a := (h ! a)\<lparr>cells := (cells (h ! a))[i := c]\<rparr>])"

text \<open>Reading through a pointer: defined only on a live object.\<close>

definition load :: "'a heap \<Rightarrow> ptr \<Rightarrow> 'a option" where
  "load h p = (case cell_at h p of Some (Obj x) \<Rightarrow> Some x | _ \<Rightarrow> None)"

text \<open>\<^verbatim>\<open>std::allocator<T_>::allocate(n)\<close>: a fresh buffer of \<open>n\<close> raw slots.\<close>

definition allocate :: "nat \<Rightarrow> 'a heap \<Rightarrow> ptr \<times> 'a heap" where
  "allocate n h = (Addr (length h) 0, h @ [\<lparr>cells = replicate n Raw, released = False\<rparr>])"

text \<open>
  \<^verbatim>\<open>deallocate(p, n)\<close>: \<open>p\<close> must come from \<^verbatim>\<open>allocate(n)\<close> and not be released yet;
  for \<^verbatim>\<open>std::allocator\<close> a null pointer is accepted and nothing happens.
\<close>

definition deallocate :: "ptr \<Rightarrow> nat \<Rightarrow> 'a heap \<Rightarrow> 'a heap option" where
  "deallocate p n h =
     (case p of
        Null k \<Rightarrow> if k = 0 then Some h else None
      | Addr a i \<Rightarrow>
          if i = 0 \<and> a < length h \<and> \<not> released (h ! a) \<and> length (cells (h ! a)) = n
          then Some (h[a := (h ! a)\<lparr>released := True\<rparr>]) else None)"

text \<open>\<^verbatim>\<open>construct(alloc_, p, value)\<close> with a \<^verbatim>\<open>const T_&\<close>: the copy constructor.\<close>

definition construct_copy ::
  "'a elem_ops \<Rightarrow> ptr \<Rightarrow> 'a \<Rightarrow> 'a heap \<Rightarrow> (unit, 'a heap) outcome" where
  "construct_copy E p x h =
     (case cell_at h p of
        None \<Rightarrow> Undefined
      | Some c \<Rightarrow>
          (case copy_ctor E x of
             None \<Rightarrow> Throw CtorFailure h
           | Some y \<Rightarrow> Ok () (put_cell h p (Obj y))))"

text \<open>\<^verbatim>\<open>construct(alloc_, p, std::move(x))\<close> for an rvalue argument held by the caller.\<close>

definition construct_move_val ::
  "'a elem_ops \<Rightarrow> ptr \<Rightarrow> 'a \<Rightarrow> 'a heap \<Rightarrow> (unit, 'a heap) outcome" where
  "construct_move_val E p x h =
     (case cell_at h p of
        None \<Rightarrow> Undefined
      | Some c \<Rightarrow>
          (case move_ctor E x of
             None \<Rightarrow> Throw CtorFailure h
           | Some (y, r) \<Rightarrow> Ok () (put_cell h p (Obj y))))"

text \<open>
  \<^verbatim>\<open>construct(alloc_, p, std::move(*src))\<close>: the move constructor reads the object at
  \<open>src\<close>, builds the new object at \<open>p\<close> and leaves the moved-from object at \<open>src\<close>.
\<close>

definition construct_move ::
  "'a elem_ops \<Rightarrow> ptr \<Rightarrow> ptr \<Rightarrow> 'a heap \<Rightarrow> (unit, 'a heap) outcome" where
  "construct_move E p src h =
     (case cell_at h p of
        None \<Rightarrow> Undefined
      | Some c \<Rightarrow>
          (case load h src of
             None \<Rightarrow> Undefined
           | Some x \<Rightarrow>
               (case move_ctor E x of
                  None \<Rightarrow> Throw CtorFailure h
                | Some (y, r) \<Rightarrow> Ok () (put_cell (put_cell h p (Obj y)) src (Obj r)))))"

text \<open>\<^verbatim>\<open>construct(alloc_, p, *src)\<close>: the copy constructor from the object at \<open>src\<close>.\<close>

definition construct_copy_from ::
  "'a elem_ops \<Rightarrow> ptr \<Rightarrow> ptr \<Rightarrow> 'a heap \<Rightarrow> (unit, 'a heap) outcome" where
  "construct_copy_from E p src h =
     (case load h src of
        None \<Rightarrow> Undefined
      | Some x \<Rightarrow> construct_copy E p x h)"

text \<open>\<^verbatim>\<open>construct(alloc_, p)\<close>: the default constructor.\<close>

definition construct_default ::
  "'a elem_ops \<Rightarrow> ptr \<Rightarrow> 'a heap \<Rightarrow> (unit, 'a heap) outcome" where
  "construct_default E p h =
     (case cell_at h p of
        None \<Rightarrow> Undefined
      | Some c \<Rightarrow>
          (case default_ctor E of
             None \<Rightarrow> Throw CtorFailure h
           | Some y \<Rightarrow> Ok () (put_cell h p (Obj y))))"

text \<open>
  A reference argument (\<^verbatim>\<open>const T_&\<close> or \<^verbatim>\<open>T_&&\<close>).  It refers to an object of the
  caller that lives outside the store, such as a temporary or a local variable, given by
  its value, or to an object at a place of the store, such as an element of a vector.
  The object is read when the callee uses the reference, not when the call is made.
\<close>

datatype 'a ref = Ext 'a | Loc ptr

fun deref :: "'a heap \<Rightarrow> 'a ref \<Rightarrow> 'a option" where
  "deref h (Ext x) = Some x"
| "deref h (Loc p) = load h p"

text \<open>\<^verbatim>\<open>construct(alloc_, p, value)\<close> where \<open>value\<close> is a \<^verbatim>\<open>const T_&\<close> parameter.\<close>

definition construct_copy_ref ::
  "'a elem_ops \<Rightarrow> ptr \<Rightarrow> 'a ref \<Rightarrow> 'a heap \<Rightarrow> (unit, 'a heap) outcome" where
  "construct_copy_ref E p r h =
     (case deref h r of
        None \<Rightarrow> Undefined
      | Some x \<Rightarrow> construct_copy E p x h)"

text \<open>
  \<^verbatim>\<open>construct(alloc_, p, std::move(value))\<close> where \<open>value\<close> is a \<^verbatim>\<open>T_&&\<close>
  parameter.  What the move leaves in an object outside the store is not part of the
  state.
\<close>

fun construct_move_ref ::
  "'a elem_ops \<Rightarrow> ptr \<Rightarrow> 'a ref \<Rightarrow> 'a heap \<Rightarrow> (unit, 'a heap) outcome" where
  "construct_move_ref E p (Ext x) h = construct_move_val E p x h"
| "construct_move_ref E p (Loc src) h = construct_move E p src h"

text \<open>\<^verbatim>\<open>destroy(alloc_, p)\<close>: runs the destructor of the live object at \<open>p\<close>.\<close>

definition destroy :: "ptr \<Rightarrow> 'a heap \<Rightarrow> 'a heap option" where
  "destroy p h =
     (case cell_at h p of
        Some (Obj x) \<Rightarrow> Some (put_cell h p Raw)
      | _ \<Rightarrow> None)"

text \<open>The loop \<^verbatim>\<open>for (k = i; k < n; ++k) destroy(alloc_, p + k)\<close>.\<close>

function destroy_range :: "ptr \<Rightarrow> nat \<Rightarrow> nat \<Rightarrow> 'a heap \<Rightarrow> 'a heap option" where
  "destroy_range p i n h =
     (if i < n then
        (case destroy (ptr_add p i) h of
           None \<Rightarrow> None
         | Some h' \<Rightarrow> destroy_range p (Suc i) n h')
      else Some h)"
  by pat_completeness auto
termination
  by (relation "measure (\<lambda>(p, i, n, h). n - i)") auto

declare destroy_range.simps [simp del]

section \<open>The iterator\<close>

record MyIterator =
  ptr_m :: ptr

definition it_deref :: "MyIterator \<Rightarrow> ptr" where
  "it_deref it = ptr_m it"


definition it_minus :: "MyIterator \<Rightarrow> nat \<Rightarrow> MyIterator" where
  "it_minus it n = \<lparr>ptr_m = ptr_sub (ptr_m it) n\<rparr>"


section \<open>The vector\<close>

text \<open>
  The fields \<^verbatim>\<open>data_\<close>, \<^verbatim>\<open>size_\<close> and \<^verbatim>\<open>capacity_\<close> of \<^verbatim>\<open>MyVector\<close>.  The allocator member is the stateless
  \<^verbatim>\<open>std::allocator\<close>; it carries no state and is not a field of the model.
\<close>

record MyVector =
  data_m :: ptr
  size_m :: nat
  capacity_m :: nat

type_synonym 'a vstate = "MyVector \<times> 'a heap"

definition empty_vector :: MyVector where
  "empty_vector = \<lparr>data_m = Null 0, size_m = 0, capacity_m = 0\<rparr>"

definition vsize :: "MyVector \<Rightarrow> nat" where
  "vsize v = size_m v"

definition capacity :: "MyVector \<Rightarrow> nat" where
  "capacity v = capacity_m v"

definition vempty :: "MyVector \<Rightarrow> bool" where
  "vempty v = (size_m v = 0)"

definition vbegin :: "MyVector \<Rightarrow> MyIterator" where
  "vbegin v = \<lparr>ptr_m = data_m v\<rparr>"

definition vend :: "MyVector \<Rightarrow> MyIterator" where
  "vend v = \<lparr>ptr_m = ptr_add (data_m v) (size_m v)\<rparr>"

text \<open>\<^verbatim>\<open>operator[]\<close> returns a reference: the address of the slot.\<close>

definition index :: "MyVector \<Rightarrow> nat \<Rightarrow> ptr" where
  "index v i = ptr_add (data_m v) i"

definition at :: "nat \<Rightarrow> 'a vstate \<Rightarrow> (ptr, 'a vstate) outcome" where
  "at i s =
     (case s of (v, h) \<Rightarrow>
        if i \<ge> size_m v then Throw OutOfRange (v, h)
        else Ok (ptr_add (data_m v) i) (v, h))"

definition front :: "'a vstate \<Rightarrow> (ptr, 'a vstate) outcome" where
  "front s =
     (case s of (v, h) \<Rightarrow>
        if vempty v then Throw RuntimeError (v, h)
        else Ok (it_deref (vbegin v)) (v, h))"

definition vback :: "'a vstate \<Rightarrow> (ptr, 'a vstate) outcome" where
  "vback s =
     (case s of (v, h) \<Rightarrow>
        if vempty v then Throw RuntimeError (v, h)
        else Ok (it_deref (it_minus (vend v) 1)) (v, h))"

definition data :: "MyVector \<Rightarrow> ptr" where
  "data v = (if vempty v then Null 0 else it_deref (vbegin v))"

text \<open>
  The move loop of \<^verbatim>\<open>reallocate\<close>; the index reached is part of the state, since the
  handler of the source reads it.
\<close>

function realloc_loop ::
  "'a elem_ops \<Rightarrow> ptr \<Rightarrow> ptr \<Rightarrow> nat \<Rightarrow> nat \<Rightarrow> 'a heap \<Rightarrow> (unit, nat \<times> 'a heap) outcome" where
  "realloc_loop E old new i n h =
     (if i < n then
        (case construct_move E (ptr_add new i) (ptr_add old i) h of
           Undefined \<Rightarrow> Undefined
         | Throw e h1 \<Rightarrow> Throw e (i, h1)
         | Ok u h1 \<Rightarrow>
             (case destroy (ptr_add old i) h1 of
                None \<Rightarrow> Undefined
              | Some h2 \<Rightarrow> realloc_loop E old new (Suc i) n h2))
      else Ok () (i, h))"
  by pat_completeness auto
termination
  by (relation "measure (\<lambda>(E, old, new, i, n, h). n - i)") auto

declare realloc_loop.simps [simp del]

definition reallocate :: "'a elem_ops \<Rightarrow> nat \<Rightarrow> 'a vstate \<Rightarrow> (unit, 'a vstate) outcome" where
  "reallocate E new_capacity s =
     (case s of (v, h) \<Rightarrow>
        (case allocate new_capacity h of (new_data, h0) \<Rightarrow>
           (case realloc_loop E (data_m v) new_data 0 (size_m v) h0 of
              Undefined \<Rightarrow> Undefined
            | Throw e (i, h1) \<Rightarrow>
                (case destroy_range new_data 0 i h1 of
                   None \<Rightarrow> Undefined
                 | Some h2 \<Rightarrow>
                     (case deallocate new_data new_capacity h2 of
                        None \<Rightarrow> Undefined
                      | Some h3 \<Rightarrow> Throw e (v, h3)))
            | Ok u (i, h1) \<Rightarrow>
                (case (if data_m v \<noteq> Null 0 then deallocate (data_m v) (capacity_m v) h1
                       else Some h1) of
                   None \<Rightarrow> Undefined
                 | Some h2 \<Rightarrow>
                     Ok () (v\<lparr>data_m := new_data, capacity_m := new_capacity\<rparr>, h2)))))"

definition reserve :: "'a elem_ops \<Rightarrow> nat \<Rightarrow> 'a vstate \<Rightarrow> (unit, 'a vstate) outcome" where
  "reserve E n s =
     (case s of (v, h) \<Rightarrow>
        if n \<le> capacity_m v then Ok () (v, h) else reallocate E n (v, h))"

text \<open>
  \<^verbatim>\<open>push_back(const T_&)\<close>.  The argument is a reference; it is read when the new
  element is constructed, after \<^verbatim>\<open>reserve\<close> has run.
\<close>

definition push_back :: "'a elem_ops \<Rightarrow> 'a ref \<Rightarrow> 'a vstate \<Rightarrow> (unit, 'a vstate) outcome" where
  "push_back E value s =
     (case s of (v, h) \<Rightarrow>
        (case (if size_m v \<ge> capacity_m v
               then reserve E (if capacity_m v \<noteq> 0 then capacity_m v * 2 else 1) (v, h)
               else Ok () (v, h)) of
           Undefined \<Rightarrow> Undefined
         | Throw e s1 \<Rightarrow> Throw e s1
         | Ok u (v1, h1) \<Rightarrow>
             (case construct_copy_ref E (ptr_add (data_m v1) (size_m v1)) value h1 of
                Undefined \<Rightarrow> Undefined
              | Throw e h2 \<Rightarrow> Throw e (v1, h2)
              | Ok u2 h2 \<Rightarrow> Ok () (v1\<lparr>size_m := size_m v1 + 1\<rparr>, h2))))"

text \<open>\<^verbatim>\<open>push_back(T_&&)\<close>, with its reference argument read after \<^verbatim>\<open>reserve\<close>.\<close>

definition push_back_rv :: "'a elem_ops \<Rightarrow> 'a ref \<Rightarrow> 'a vstate \<Rightarrow> (unit, 'a vstate) outcome" where
  "push_back_rv E value s =
     (case s of (v, h) \<Rightarrow>
        (case (if size_m v \<ge> capacity_m v
               then reserve E (if capacity_m v \<noteq> 0 then capacity_m v * 2 else 1) (v, h)
               else Ok () (v, h)) of
           Undefined \<Rightarrow> Undefined
         | Throw e s1 \<Rightarrow> Throw e s1
         | Ok u (v1, h1) \<Rightarrow>
             (case construct_move_ref E (ptr_add (data_m v1) (size_m v1)) value h1 of
                Undefined \<Rightarrow> Undefined
              | Throw e h2 \<Rightarrow> Throw e (v1, h2)
              | Ok u2 h2 \<Rightarrow> Ok () (v1\<lparr>size_m := size_m v1 + 1\<rparr>, h2))))"

definition pop_back :: "'a vstate \<Rightarrow> (unit, 'a vstate) outcome" where
  "pop_back s =
     (case s of (v, h) \<Rightarrow>
        if size_m v > 0 then
          (case destroy (ptr_sub (ptr_add (data_m v) (size_m v)) 1) h of
             None \<Rightarrow> Undefined
           | Some h1 \<Rightarrow> Ok () (v\<lparr>size_m := size_m v - 1\<rparr>, h1))
        else Ok () (v, h))"

text \<open>The loop \<^verbatim>\<open>for (k = i; k < n; ++k) construct(alloc_, p + k)\<close> of \<^verbatim>\<open>resize\<close>.\<close>

function default_range ::
  "'a elem_ops \<Rightarrow> ptr \<Rightarrow> nat \<Rightarrow> nat \<Rightarrow> 'a heap \<Rightarrow> (unit, 'a heap) outcome" where
  "default_range E p i n h =
     (if i < n then
        (case construct_default E (ptr_add p i) h of
           Undefined \<Rightarrow> Undefined
         | Throw e h1 \<Rightarrow> Throw e h1
         | Ok u h1 \<Rightarrow> default_range E p (Suc i) n h1)
      else Ok () h)"
  by pat_completeness auto
termination
  by (relation "measure (\<lambda>(E, p, i, n, h). n - i)") auto

declare default_range.simps [simp del]

text \<open>
  \<^verbatim>\<open>resize\<close>.  Both loops start at \<^verbatim>\<open>new_size\<close> and run while \<^verbatim>\<open>i < size_\<close>, as in
  the source.
\<close>

definition resize :: "'a elem_ops \<Rightarrow> nat \<Rightarrow> 'a vstate \<Rightarrow> (unit, 'a vstate) outcome" where
  "resize E new_size s =
     (case s of (v, h) \<Rightarrow>
        if new_size < size_m v then
          (case destroy_range (data_m v) new_size (size_m v) h of
             None \<Rightarrow> Undefined
           | Some h1 \<Rightarrow> Ok () (v\<lparr>size_m := new_size\<rparr>, h1))
        else if new_size > size_m v then
          (case default_range E (data_m v) new_size (size_m v) h of
             Undefined \<Rightarrow> Undefined
           | Throw e h1 \<Rightarrow> Throw e (v, h1)
           | Ok u h1 \<Rightarrow> Ok () (v\<lparr>size_m := new_size\<rparr>, h1))
        else Ok () (v\<lparr>size_m := new_size\<rparr>, h))"

definition clear :: "'a vstate \<Rightarrow> (unit, 'a vstate) outcome" where
  "clear s =
     (case s of (v, h) \<Rightarrow>
        (case destroy_range (data_m v) 0 (size_m v) h of
           None \<Rightarrow> Undefined
         | Some h1 \<Rightarrow> Ok () (v\<lparr>size_m := 0\<rparr>, h1)))"

text \<open>The move loop of \<^verbatim>\<open>shrink_to_fit\<close>: the old elements are not destroyed here.\<close>

function shrink_loop ::
  "'a elem_ops \<Rightarrow> ptr \<Rightarrow> ptr \<Rightarrow> nat \<Rightarrow> nat \<Rightarrow> 'a heap \<Rightarrow> (unit, 'a heap) outcome" where
  "shrink_loop E old new i n h =
     (if i < n then
        (case construct_move E (ptr_add new i) (ptr_add old i) h of
           Undefined \<Rightarrow> Undefined
         | Throw e h1 \<Rightarrow> Throw e h1
         | Ok u h1 \<Rightarrow> shrink_loop E old new (Suc i) n h1)
      else Ok () h)"
  by pat_completeness auto
termination
  by (relation "measure (\<lambda>(E, old, new, i, n, h). n - i)") auto

declare shrink_loop.simps [simp del]

definition shrink_to_fit :: "'a elem_ops \<Rightarrow> 'a vstate \<Rightarrow> (unit, 'a vstate) outcome" where
  "shrink_to_fit E s =
     (case s of (v, h) \<Rightarrow>
        if capacity_m v = size_m v then Ok () (v, h)
        else
          (case allocate (size_m v) h of (new_data, h0) \<Rightarrow>
             (let new_capacity = size_m v in
                (case shrink_loop E (data_m v) new_data 0 (size_m v) h0 of
                   Undefined \<Rightarrow> Undefined
                 | Throw e h1 \<Rightarrow>
                     (case deallocate new_data new_capacity h1 of
                        None \<Rightarrow> Undefined
                      | Some h2 \<Rightarrow> Throw e (v, h2))
                 | Ok u h1 \<Rightarrow>
                     (case destroy_range (data_m v) 0 (size_m v) h1 of
                        None \<Rightarrow> Undefined
                      | Some h2 \<Rightarrow>
                          (case deallocate (data_m v) (capacity_m v) h2 of
                             None \<Rightarrow> Undefined
                           | Some h3 \<Rightarrow>
                               Ok () (v\<lparr>data_m := new_data, capacity_m := size_m v\<rparr>, h3)))))))"

text \<open>
  \<^verbatim>\<open>assing(size_t n, const T_& val)\<close>.  The argument is a \<^verbatim>\<open>const T_&\<close>, so
  \<^verbatim>\<open>std::move(val)\<close> is a \<^verbatim>\<open>const T_&&\<close> and the call resolves to
  \<^verbatim>\<open>push_back(const T_&)\<close>, which receives the same reference: the object is read
  at each \<^verbatim>\<open>push_back\<close>, after \<^verbatim>\<open>clear()\<close>.
\<close>

function assing_loop ::
  "'a elem_ops \<Rightarrow> 'a ref \<Rightarrow> nat \<Rightarrow> nat \<Rightarrow> 'a vstate \<Rightarrow> (unit, 'a vstate) outcome" where
  "assing_loop E val i n s =
     (if i < n then
        (case push_back E val s of
           Undefined \<Rightarrow> Undefined
         | Throw e s1 \<Rightarrow> Throw e s1
         | Ok u s1 \<Rightarrow> assing_loop E val (Suc i) n s1)
      else Ok () s)"
  by pat_completeness auto
termination
  by (relation "measure (\<lambda>(E, val, i, n, s). n - i)") auto

declare assing_loop.simps [simp del]

definition assing :: "'a elem_ops \<Rightarrow> nat \<Rightarrow> 'a ref \<Rightarrow> 'a vstate \<Rightarrow> (unit, 'a vstate) outcome" where
  "assing E n val s =
     (case clear s of
        Undefined \<Rightarrow> Undefined
      | Throw e s1 \<Rightarrow> Throw e s1
      | Ok u s1 \<Rightarrow> assing_loop E val 0 n s1)"



section \<open>Constructors, assignment, swap\<close>

text \<open>The loop \<^verbatim>\<open>for (k = i; k < n; ++k) construct(alloc_, p + k, value)\<close>.\<close>

function fill_range ::
  "'a elem_ops \<Rightarrow> ptr \<Rightarrow> 'a \<Rightarrow> nat \<Rightarrow> nat \<Rightarrow> 'a heap \<Rightarrow> (unit, 'a heap) outcome" where
  "fill_range E p x i n h =
     (if i < n then
        (case construct_copy E (ptr_add p i) x h of
           Undefined \<Rightarrow> Undefined
         | Throw e h1 \<Rightarrow> Throw e h1
         | Ok u h1 \<Rightarrow> fill_range E p x (Suc i) n h1)
      else Ok () h)"
  by pat_completeness auto
termination
  by (relation "measure (\<lambda>(E, p, x, i, n, h). n - i)") auto

declare fill_range.simps [simp del]

text \<open>
  \<^verbatim>\<open>MyVector(size_t n, const T_& value)\<close>.  The members start from their default
  initialisers.  The second allocation of the source is made and its result dropped.
  The vector is new and no existing object is destroyed or changed while the argument is
  read, so the argument is given by the value of its object.
\<close>

definition MyVector_fill :: "'a elem_ops \<Rightarrow> nat \<Rightarrow> 'a \<Rightarrow> 'a heap \<Rightarrow> (unit, 'a vstate) outcome" where
  "MyVector_fill E n x h =
     (case reserve E n (empty_vector, h) of
        Undefined \<Rightarrow> Undefined
      | Throw e s1 \<Rightarrow> Throw e s1
      | Ok u (v1, h1) \<Rightarrow>
          (case allocate n h1 of (unused, h2) \<Rightarrow>
             (case fill_range E (data_m v1) x 0 n h2 of
                Undefined \<Rightarrow> Undefined
              | Throw e h3 \<Rightarrow> Throw e (v1, h3)
              | Ok u2 h3 \<Rightarrow> Ok () (v1\<lparr>size_m := n\<rparr>, h3))))"

text \<open>
  The loop of the range constructor; the range \<^verbatim>\<open>[first, last)\<close> is the list of the
  values it yields.
\<close>

fun copy_values ::
  "'a elem_ops \<Rightarrow> ptr \<Rightarrow> nat \<Rightarrow> 'a list \<Rightarrow> 'a heap \<Rightarrow> (unit, 'a heap) outcome" where
  "copy_values E p i [] h = Ok () h"
| "copy_values E p i (x # xs) h =
     (case construct_copy E (ptr_add p i) x h of
        Undefined \<Rightarrow> Undefined
      | Throw e h1 \<Rightarrow> Throw e h1
      | Ok u h1 \<Rightarrow> copy_values E p (Suc i) xs h1)"

definition MyVector_range :: "'a elem_ops \<Rightarrow> 'a list \<Rightarrow> 'a heap \<Rightarrow> (unit, 'a vstate) outcome" where
  "MyVector_range E xs h =
     (let count = length xs in
        (case reserve E count (empty_vector, h) of
           Undefined \<Rightarrow> Undefined
         | Throw e s1 \<Rightarrow> Throw e s1
         | Ok u (v1, h1) \<Rightarrow>
             (case copy_values E (data_m v1) 0 xs h1 of
                Undefined \<Rightarrow> Undefined
              | Throw e h2 \<Rightarrow> Throw e (v1, h2)
              | Ok u2 h2 \<Rightarrow> Ok () (v1\<lparr>size_m := count\<rparr>, h2))))"

definition MyVector_init_list :: "'a elem_ops \<Rightarrow> 'a list \<Rightarrow> 'a heap \<Rightarrow> (unit, 'a vstate) outcome" where
  "MyVector_init_list E init h = MyVector_range E init h"

text \<open>The loop \<^verbatim>\<open>construct(alloc_, data_ + i, other.data_[i])\<close> of the copy operations.\<close>

function copy_loop ::
  "'a elem_ops \<Rightarrow> ptr \<Rightarrow> ptr \<Rightarrow> nat \<Rightarrow> nat \<Rightarrow> 'a heap \<Rightarrow> (unit, 'a heap) outcome" where
  "copy_loop E dst src i n h =
     (if i < n then
        (case construct_copy_from E (ptr_add dst i) (ptr_add src i) h of
           Undefined \<Rightarrow> Undefined
         | Throw e h1 \<Rightarrow> Throw e h1
         | Ok u h1 \<Rightarrow> copy_loop E dst src (Suc i) n h1)
      else Ok () h)"
  by pat_completeness auto
termination
  by (relation "measure (\<lambda>(E, dst, src, i, n, h). n - i)") auto

declare copy_loop.simps [simp del]

text \<open>The copy constructor: the result is the new vector; \<open>other\<close> is read only.\<close>

definition MyVector_copy :: "'a elem_ops \<Rightarrow> MyVector \<Rightarrow> 'a heap \<Rightarrow> (unit, 'a vstate) outcome" where
  "MyVector_copy E other h =
     (case reserve E (capacity_m other) (empty_vector, h) of
        Undefined \<Rightarrow> Undefined
      | Throw e s1 \<Rightarrow> Throw e s1
      | Ok u (v1, h1) \<Rightarrow>
          (case copy_loop E (data_m v1) (data_m other) 0 (size_m other) h1 of
             Undefined \<Rightarrow> Undefined
           | Throw e h2 \<Rightarrow> Throw e (v1, h2)
           | Ok u2 h2 \<Rightarrow> Ok () (v1\<lparr>size_m := size_m other\<rparr>, h2)))"

text \<open>The move constructor: the new vector and what is left of \<open>other\<close>.\<close>

definition MyVector_move :: "MyVector \<Rightarrow> MyVector \<times> MyVector" where
  "MyVector_move other =
     (\<lparr>data_m = data_m other, size_m = size_m other, capacity_m = capacity_m other\<rparr>,
      other\<lparr>data_m := Null 0, size_m := 0, capacity_m := 0\<rparr>)"

text \<open>
  Copy assignment into \<open>this\<close> from another object \<open>other\<close> (the branch
  \<^verbatim>\<open>this != &other\<close>); self-assignment changes nothing.
\<close>

definition copy_assign ::
  "'a elem_ops \<Rightarrow> MyVector \<Rightarrow> MyVector \<Rightarrow> 'a heap \<Rightarrow> (unit, 'a vstate) outcome" where
  "copy_assign E this other h =
     (case clear (this, h) of
        Undefined \<Rightarrow> Undefined
      | Throw e s1 \<Rightarrow> Throw e s1
      | Ok u s1 \<Rightarrow>
          (case reserve E (capacity_m other) s1 of
             Undefined \<Rightarrow> Undefined
           | Throw e s2 \<Rightarrow> Throw e s2
           | Ok u2 (v2, h2) \<Rightarrow>
               (case copy_loop E (data_m v2) (data_m other) 0 (size_m other) h2 of
                  Undefined \<Rightarrow> Undefined
                | Throw e h3 \<Rightarrow> Throw e (v2, h3)
                | Ok u3 h3 \<Rightarrow> Ok () (v2\<lparr>size_m := size_m other\<rparr>, h3))))"

text \<open>
  Move assignment into \<open>this\<close> from another object \<open>other\<close> (the branch
  \<^verbatim>\<open>this != &other\<close>).  The three last assignments of the source are to the members of
  \<open>this\<close>.  The result is \<open>this\<close>, \<open>other\<close> and the store.
\<close>

definition move_assign ::
  "MyVector \<Rightarrow> MyVector \<Rightarrow> 'a heap \<Rightarrow> (unit, MyVector \<times> MyVector \<times> 'a heap) outcome" where
  "move_assign this other h =
     (case clear (this, h) of
        Undefined \<Rightarrow> Undefined
      | Throw e (v1, h1) \<Rightarrow> Throw e (v1, other, h1)
      | Ok u (v1, h1) \<Rightarrow>
          (case deallocate (data_m v1) (capacity_m v1) h1 of
             None \<Rightarrow> Undefined
           | Some h2 \<Rightarrow>
               (let v2 = v1\<lparr>data_m := data_m other\<rparr>;
                    v3 = v2\<lparr>size_m := size_m other\<rparr>;
                    v4 = v3\<lparr>capacity_m := capacity_m other\<rparr>;
                    v5 = v4\<lparr>data_m := Null 0\<rparr>;
                    v6 = v5\<lparr>size_m := 0\<rparr>;
                    v7 = v6\<lparr>capacity_m := 0\<rparr>
                in Ok () (v7, other, h2))))"

text \<open>\<^verbatim>\<open>swap\<close>: three \<^verbatim>\<open>std::swap\<close> calls on the members.\<close>

definition swap :: "MyVector \<Rightarrow> MyVector \<Rightarrow> MyVector \<times> MyVector" where
  "swap this other =
     (this\<lparr>data_m := data_m other, size_m := size_m other, capacity_m := capacity_m other\<rparr>,
      other\<lparr>data_m := data_m this, size_m := size_m this, capacity_m := capacity_m this\<rparr>)"

text \<open>The destructor.\<close>

definition destructor :: "'a vstate \<Rightarrow> 'a heap option" where
  "destructor s =
     (case clear s of
        Ok u (v1, h1) \<Rightarrow>
          (if data_m v1 \<noteq> Null 0 then deallocate (data_m v1) (capacity_m v1) h1 else Some h1)
      | _ \<Rightarrow> None)"

section \<open>Programs over several vectors\<close>

text \<open>
  A client program owns some vectors, all in one store, and calls the public operations
  on them one after the other.  An exception leaves the state the operation had reached
  and the program goes on; undefined behaviour ends the run.  A constructor that throws
  leaves no object.  \<open>PushBack i x\<close>, \<open>PushBackRv i x\<close> and \<open>Assing i n x\<close> pass an object
  outside the store; \<open>PushBackAt i j k\<close>, \<open>PushBackRvAt i j k\<close> and \<open>AssingAt i n j k\<close>
  pass the element \<^verbatim>\<open>w[k]\<close> of the vector \<open>w\<close> with number \<open>j\<close>, which may be the vector
  \<open>i\<close> itself.
\<close>

record 'a world =
  vecs :: "MyVector list"
  mem :: "'a heap"

datatype 'a action =
    NewDefault
  | NewFill nat 'a
  | NewRange "'a list"
  | NewCopy nat
  | NewMove nat
  | PushBack nat 'a
  | PushBackRv nat 'a
  | PopBack nat
  | Resize nat nat
  | Reserve nat nat
  | Clear nat
  | ShrinkToFit nat
  | Assing nat nat 'a
  | Swap nat nat
  | CopyAssign nat nat
  | MoveAssign nat nat
  | PushBackAt nat nat nat
  | PushBackRvAt nat nat nat
  | AssingAt nat nat nat nat

definition created :: "'a world \<Rightarrow> (unit, 'a vstate) outcome \<Rightarrow> (unit, 'a world) outcome" where
  "created w r =
     (case r of
        Undefined \<Rightarrow> Undefined
      | Throw e (v, h) \<Rightarrow> Throw e (w\<lparr>mem := h\<rparr>)
      | Ok u (v, h) \<Rightarrow> Ok () \<lparr>vecs = vecs w @ [v], mem = h\<rparr>)"

definition updated :: "'a world \<Rightarrow> nat \<Rightarrow> (unit, 'a vstate) outcome \<Rightarrow> (unit, 'a world) outcome" where
  "updated w i r =
     (case r of
        Undefined \<Rightarrow> Undefined
      | Throw e (v, h) \<Rightarrow> Throw e \<lparr>vecs = (vecs w)[i := v], mem = h\<rparr>
      | Ok u (v, h) \<Rightarrow> Ok () \<lparr>vecs = (vecs w)[i := v], mem = h\<rparr>)"

fun step :: "'a elem_ops \<Rightarrow> 'a action \<Rightarrow> 'a world \<Rightarrow> (unit, 'a world) outcome" where
  "step E NewDefault w = Ok () (w\<lparr>vecs := vecs w @ [empty_vector]\<rparr>)"
| "step E (NewFill n x) w = created w (MyVector_fill E n x (mem w))"
| "step E (NewRange xs) w = created w (MyVector_range E xs (mem w))"
| "step E (NewCopy j) w =
     (if j < length (vecs w) then created w (MyVector_copy E (vecs w ! j) (mem w))
      else Undefined)"
| "step E (NewMove j) w =
     (if j < length (vecs w) then
        (case MyVector_move (vecs w ! j) of
           (new, other) \<Rightarrow> Ok () (w\<lparr>vecs := (vecs w)[j := other] @ [new]\<rparr>))
      else Undefined)"
| "step E (PushBack i x) w =
     (if i < length (vecs w) then updated w i (push_back E (Ext x) (vecs w ! i, mem w))
      else Undefined)"
| "step E (PushBackRv i x) w =
     (if i < length (vecs w) then updated w i (push_back_rv E (Ext x) (vecs w ! i, mem w))
      else Undefined)"
| "step E (PopBack i) w =
     (if i < length (vecs w) then updated w i (pop_back (vecs w ! i, mem w))
      else Undefined)"
| "step E (Resize i n) w =
     (if i < length (vecs w) then updated w i (resize E n (vecs w ! i, mem w))
      else Undefined)"
| "step E (Reserve i n) w =
     (if i < length (vecs w) then updated w i (reserve E n (vecs w ! i, mem w))
      else Undefined)"
| "step E (Clear i) w =
     (if i < length (vecs w) then updated w i (clear (vecs w ! i, mem w))
      else Undefined)"
| "step E (ShrinkToFit i) w =
     (if i < length (vecs w) then updated w i (shrink_to_fit E (vecs w ! i, mem w))
      else Undefined)"
| "step E (Assing i n x) w =
     (if i < length (vecs w) then updated w i (assing E n (Ext x) (vecs w ! i, mem w))
      else Undefined)"
| "step E (Swap i j) w =
     (if i < length (vecs w) \<and> j < length (vecs w) then
        (if i = j then Ok () w
         else
           (case swap (vecs w ! i) (vecs w ! j) of
              (this, other) \<Rightarrow> Ok () (w\<lparr>vecs := (vecs w)[i := this, j := other]\<rparr>)))
      else Undefined)"
| "step E (CopyAssign i j) w =
     (if i < length (vecs w) \<and> j < length (vecs w) then
        (if i = j then Ok () w
         else updated w i (copy_assign E (vecs w ! i) (vecs w ! j) (mem w)))
      else Undefined)"
| "step E (MoveAssign i j) w =
     (if i < length (vecs w) \<and> j < length (vecs w) then
        (if i = j then Ok () w
         else
           (case move_assign (vecs w ! i) (vecs w ! j) (mem w) of
              Undefined \<Rightarrow> Undefined
            | Throw e (this, other, h) \<Rightarrow>
                Throw e \<lparr>vecs = (vecs w)[i := this, j := other], mem = h\<rparr>
            | Ok u (this, other, h) \<Rightarrow>
                Ok () \<lparr>vecs = (vecs w)[i := this, j := other], mem = h\<rparr>))
      else Undefined)"
| "step E (PushBackAt i j k) w =
     (if i < length (vecs w) \<and> j < length (vecs w) then
        updated w i (push_back E (Loc (index (vecs w ! j) k)) (vecs w ! i, mem w))
      else Undefined)"
| "step E (PushBackRvAt i j k) w =
     (if i < length (vecs w) \<and> j < length (vecs w) then
        updated w i (push_back_rv E (Loc (index (vecs w ! j) k)) (vecs w ! i, mem w))
      else Undefined)"
| "step E (AssingAt i n j k) w =
     (if i < length (vecs w) \<and> j < length (vecs w) then
        updated w i (assing E n (Loc (index (vecs w ! j) k)) (vecs w ! i, mem w))
      else Undefined)"

definition initial_world :: "'a world" where
  "initial_world = \<lparr>vecs = [], mem = []\<rparr>"

fun run :: "'a elem_ops \<Rightarrow> 'a action list \<Rightarrow> 'a world \<Rightarrow> 'a world option" where
  "run E [] w = Some w"
| "run E (a # as) w =
     (case step E a w of
        Undefined \<Rightarrow> None
      | Throw e w1 \<Rightarrow> run E as w1
      | Ok u w1 \<Rightarrow> run E as w1)"

text \<open>The caller's side of \<^verbatim>\<open>resize\<close>: the requested size fits the capacity.\<close>

fun fits :: "'a action \<Rightarrow> 'a world \<Rightarrow> bool" where
  "fits (Resize i n) w = (i < length (vecs w) \<and> n \<le> capacity_m (vecs w ! i))"
| "fits a w = True"

fun resizes_fit :: "'a elem_ops \<Rightarrow> 'a action list \<Rightarrow> 'a world \<Rightarrow> bool" where
  "resizes_fit E [] w = True"
| "resizes_fit E (a # as) w =
     (fits a w \<and>
      (case step E a w of
         Undefined \<Rightarrow> True
       | Throw e w1 \<Rightarrow> resizes_fit E as w1
       | Ok u w1 \<Rightarrow> resizes_fit E as w1))"

section \<open>Element types used in the examples\<close>

text \<open>A trivially copyable element type such as \<^verbatim>\<open>int\<close>: moving is copying.\<close>

definition trivial_ops :: "int elem_ops" where
  "trivial_ops =
     \<lparr>copy_ctor = (\<lambda>x. Some x), move_ctor = (\<lambda>x. Some (x, x)), default_ctor = Some 0\<rparr>"

text \<open>
  An element type with an injected failure: the move constructor throws on the value
  \<open>bad\<close> and otherwise copies, leaving its argument as it was.
\<close>

definition failing_ops :: "int \<Rightarrow> int elem_ops" where
  "failing_ops bad =
     \<lparr>copy_ctor = (\<lambda>x. Some x),
      move_ctor = (\<lambda>x. if x = bad then None else Some (x, x)),
      default_ctor = Some 0\<rparr>"

text \<open>
  Element types whose constructors do not throw and build an object equal to their
  argument.
\<close>

definition value_preserving :: "'a elem_ops \<Rightarrow> bool" where
  "value_preserving E =
     ((\<forall>x. copy_ctor E x = Some x) \<and> (\<forall>x. \<exists>r. move_ctor E x = Some (x, r)))"

section \<open>Predicates on states\<close>

text \<open>Buffer \<open>a\<close> is allocated with \<open>n\<close> slots and not released.\<close>

definition block_ok :: "'a heap \<Rightarrow> nat \<Rightarrow> nat \<Rightarrow> bool" where
  "block_ok h a n = (a < length h \<and> \<not> released (h ! a) \<and> length (cells (h ! a)) = n)"

text \<open>The first \<^verbatim>\<open>size_\<close> slots of the vector hold live objects.\<close>

definition live :: "MyVector \<Rightarrow> 'a heap \<Rightarrow> bool" where
  "live v h = list_all (\<lambda>k. load h (index v k) \<noteq> None) [0..<size_m v]"

definition within :: "MyVector \<Rightarrow> bool" where
  "within v = (size_m v \<le> capacity_m v)"

definition all_within :: "'a world \<Rightarrow> bool" where
  "all_within w = list_all within (vecs w)"

text \<open>A property of the state an operation leaves, whether it returns or throws.\<close>

definition after :: "('s \<Rightarrow> bool) \<Rightarrow> ('r, 's) outcome \<Rightarrow> bool" where
  "after P r = (case r of Ok u s \<Rightarrow> P s | Throw e s \<Rightarrow> P s | Undefined \<Rightarrow> True)"

text \<open>
  The representation invariant: \<open>size \<le> capacity\<close>; the buffer pointer is null with
  capacity 0, or the start of an allocated buffer of \<open>capacity\<close> slots; the first
  \<open>size\<close> slots hold live objects.
\<close>

definition valid :: "MyVector \<Rightarrow> 'a heap \<Rightarrow> bool" where
  "valid v h =
     (within v \<and>
      (case data_m v of
         Null k \<Rightarrow> k = 0 \<and> capacity_m v = 0
       | Addr a i \<Rightarrow> i = 0 \<and> block_ok h a (capacity_m v)) \<and>
      live v h)"

text \<open>
  The reference does not refer into the buffer of the vector: it is an object outside the
  store or an object of another buffer.
\<close>

fun apart :: "MyVector \<Rightarrow> 'a ref \<Rightarrow> bool" where
  "apart v (Ext x) = True"
| "apart v (Loc (Null k)) = True"
| "apart v (Loc (Addr c k)) = (data_m v \<noteq> Addr c 0)"


section \<open>Client loops\<close>

text \<open>
  The caller's sequence of calls \<^verbatim>\<open>v.push_back(r)\<close>, one for each reference of the
  list, stopping at the first exception.
\<close>

fun push_all :: "'a elem_ops \<Rightarrow> 'a ref list \<Rightarrow> 'a vstate \<Rightarrow> (unit, 'a vstate) outcome" where
  "push_all E [] s = Ok () s"
| "push_all E (x # xs) s =
     (case push_back E x s of
        Undefined \<Rightarrow> Undefined
      | Throw e s1 \<Rightarrow> Throw e s1
      | Ok u s1 \<Rightarrow> push_all E xs s1)"



section \<open>Checked access and removal at the boundary\<close>

text \<open>
  Claim C7.  For every vector, \<^verbatim>\<open>at(i)\<close> throws the out-of-range error exactly when
  \<open>i \<ge> size\<close>, in particular at \<open>i = size\<close>, also on an empty vector, and leaves the
  vector and the store as they were; otherwise it returns the reference to slot \<open>i\<close>.
  \<^verbatim>\<open>front()\<close> and \<^verbatim>\<open>back()\<close> throw the empty-container error exactly when
  \<open>size = 0\<close>.  \<^verbatim>\<open>pop_back()\<close> on an empty vector returns normally and changes nothing.
\<close>

theorem boundary_access:
  fixes v :: MyVector and h :: "'a heap"
  shows "(vsize v \<le> i \<longrightarrow> at i (v, h) = Throw OutOfRange (v, h)) \<and>
         (i < vsize v \<longrightarrow> at i (v, h) = Ok (index v i) (v, h)) \<and>
         at (vsize v) (v, h) = Throw OutOfRange (v, h) \<and>
         (vsize v = 0 \<longrightarrow> front (v, h) = Throw RuntimeError (v, h)) \<and>
         (vsize v \<noteq> 0 \<longrightarrow> front (v, h) = Ok (index v 0) (v, h)) \<and>
         (vsize v = 0 \<longrightarrow> vback (v, h) = Throw RuntimeError (v, h)) \<and>
         (vsize v \<noteq> 0 \<longrightarrow> vback (v, h) = Ok (index v (vsize v - 1)) (v, h)) \<and>
         (vsize v = 0 \<longrightarrow> pop_back (v, h) = Ok () (v, h))"
proof -
  have ix0: "index v 0 = data_m v"
    by (cases "data_m v") (simp_all add: index_def)
  have back_ref: "vsize v \<noteq> 0 \<Longrightarrow>
      it_deref (it_minus (vend v) 1) = index v (vsize v - 1)"
    by (cases "data_m v")
       (simp_all add: it_deref_def it_minus_def vend_def index_def vsize_def)
  show ?thesis
    using back_ref
    by (simp add: at_def front_def vback_def pop_back_def vsize_def vempty_def
        index_def [of v i] ix0 it_deref_def vbegin_def)
qed

theorem boundary_access_witness:
  "at 0 (empty_vector, ([] :: int heap)) = Throw OutOfRange (empty_vector, []) \<and>
   at 1 (\<lparr>data_m = Addr 0 0, size_m = 2, capacity_m = 2\<rparr>,
         [\<lparr>cells = [Obj (5 :: int), Obj 6], released = False\<rparr>])
     = Ok (Addr 0 1) (\<lparr>data_m = Addr 0 0, size_m = 2, capacity_m = 2\<rparr>,
         [\<lparr>cells = [Obj 5, Obj 6], released = False\<rparr>]) \<and>
   front (empty_vector, ([] :: int heap)) = Throw RuntimeError (empty_vector, []) \<and>
   vback (\<lparr>data_m = Addr 0 0, size_m = 2, capacity_m = 2\<rparr>,
         [\<lparr>cells = [Obj (5 :: int), Obj 6], released = False\<rparr>])
     = Ok (Addr 0 1) (\<lparr>data_m = Addr 0 0, size_m = 2, capacity_m = 2\<rparr>,
         [\<lparr>cells = [Obj 5, Obj 6], released = False\<rparr>]) \<and>
   pop_back (empty_vector, ([] :: int heap)) = Ok () (empty_vector, [])"
  using boundary_access [of empty_vector 0 "[] :: int heap"]
    boundary_access [of "\<lparr>data_m = Addr 0 0, size_m = 2, capacity_m = 2\<rparr>" 1
      "[\<lparr>cells = [Obj (5 :: int), Obj 6], released = False\<rparr>]"]
  by (simp add: vsize_def empty_vector_def index_def)

section \<open>Move assignment\<close>

text \<open>
  Claim C1 says that after a move assignment of \<open>A\<close> into \<open>B\<close>, \<open>B\<close> holds the buffer, size
  and capacity \<open>A\<close> had and \<open>A\<close> is empty.  The program builds \<open>A\<close> from the values 1, 2
  and \<open>B\<close> from the value 7 and move-assigns \<open>A\<close> to \<open>B\<close>.  Afterwards \<open>A\<close> (the first
  vector) still has its buffer, size 2 and capacity 2, and \<open>B\<close> is the one that is empty,
  with a null buffer; the former buffer of \<open>B\<close> is released.
\<close>

theorem move_assign_leaves_target_empty:
  "run trivial_ops [NewRange [1, 2], NewRange [7], MoveAssign 1 0] initial_world =
     Some \<lparr>vecs = [\<lparr>data_m = Addr 0 0, size_m = 2, capacity_m = 2\<rparr>,
                   \<lparr>data_m = Null 0, size_m = 0, capacity_m = 0\<rparr>],
            mem = [\<lparr>cells = [Obj 1, Obj 2], released = False\<rparr>,
                   \<lparr>cells = [Raw], released = True\<rparr>]\<rparr>"
  by code_simp

section \<open>Resize\<close>

text \<open>
  Claim C4 says that \<^verbatim>\<open>resize(new_size)\<close> with \<open>new_size > size\<close> default-constructs the
  elements at the positions from \<open>size\<close> up to \<open>new_size\<close>.  On an empty vector with
  capacity 4, \<^verbatim>\<open>resize(2)\<close> sets the size to 2 and constructs nothing: the two slots are
  still raw storage.
\<close>

theorem resize_grow_constructs_nothing:
  "run trivial_ops [NewDefault, Reserve 0 4, Resize 0 2] initial_world =
     Some \<lparr>vecs = [\<lparr>data_m = Addr 0 0, size_m = 2, capacity_m = 4\<rparr>],
            mem = [\<lparr>cells = [Raw, Raw, Raw, Raw], released = False\<rparr>]\<rparr>"
  by code_simp

section \<open>A throwing move constructor\<close>

text \<open>
  Claim C3 says that when an element constructor throws during the reallocation that
  \<^verbatim>\<open>push_back\<close> starts on a full vector, size and capacity are unchanged and all the
  elements are intact.  The vector holds 1, 2 and is full; the move constructor throws on
  the value 2.  \<^verbatim>\<open>push_back(3)\<close> throws and size and capacity are still 2, but the
  element in slot 0 was destroyed during the loop: the slot is raw storage.
\<close>

theorem push_back_throw_loses_elements:
  "run (failing_ops 2) [NewRange [1, 2]] initial_world =
     Some \<lparr>vecs = [\<lparr>data_m = Addr 0 0, size_m = 2, capacity_m = 2\<rparr>],
            mem = [\<lparr>cells = [Obj 1, Obj 2], released = False\<rparr>]\<rparr> \<and>
   step (failing_ops 2) (PushBack 0 3)
       \<lparr>vecs = [\<lparr>data_m = Addr 0 0, size_m = 2, capacity_m = 2\<rparr>],
        mem = [\<lparr>cells = [Obj 1, Obj 2], released = False\<rparr>]\<rparr> =
     Throw CtorFailure
       \<lparr>vecs = [\<lparr>data_m = Addr 0 0, size_m = 2, capacity_m = 2\<rparr>],
        mem = [\<lparr>cells = [Raw, Obj 2], released = False\<rparr>,
               \<lparr>cells = [Raw, Raw, Raw, Raw], released = True\<rparr>]\<rparr>"
  by code_simp

text \<open>
  Claim C8 says that when a move constructor throws during \<^verbatim>\<open>shrink_to_fit\<close>, the
  elements already constructed in the new buffer are destroyed before the buffer is
  released.  The vector holds 1, 2 with capacity 3; the move constructor throws on the
  value 2.  \<^verbatim>\<open>shrink_to_fit()\<close> throws, and the new buffer is released while the
  element built in its slot 0 is still alive: its destructor never ran.
\<close>

theorem shrink_to_fit_throw_skips_destroy:
  "run (failing_ops 2) [NewRange [1, 2, 3], PopBack 0] initial_world =
     Some \<lparr>vecs = [\<lparr>data_m = Addr 0 0, size_m = 2, capacity_m = 3\<rparr>],
            mem = [\<lparr>cells = [Obj 1, Obj 2, Raw], released = False\<rparr>]\<rparr> \<and>
   step (failing_ops 2) (ShrinkToFit 0)
       \<lparr>vecs = [\<lparr>data_m = Addr 0 0, size_m = 2, capacity_m = 3\<rparr>],
        mem = [\<lparr>cells = [Obj 1, Obj 2, Raw], released = False\<rparr>]\<rparr> =
     Throw CtorFailure
       \<lparr>vecs = [\<lparr>data_m = Addr 0 0, size_m = 2, capacity_m = 3\<rparr>],
        mem = [\<lparr>cells = [Obj 1, Obj 2, Raw], released = False\<rparr>,
               \<lparr>cells = [Obj 1, Raw], released = True\<rparr>]\<rparr>"
  by code_simp

section \<open>Lemmas on the store\<close>

lemma ptr_add_inj: "(ptr_add p i = ptr_add p j) = (i = j)"
  by (cases p) simp_all


lemma cell_at_put_cell:
  "cell_at h p \<noteq> None \<Longrightarrow> cell_at (put_cell h p c) q = (if q = p then Some c else cell_at h q)"
  by (cases p; cases q)
     (auto simp: cell_at_def put_cell_def nth_list_update split: if_splits)

lemma length_put_cell: "length (put_cell h p c) = length h"
  by (cases p) (simp_all add: put_cell_def)

lemma block_ok_put_cell: "block_ok (put_cell h p c) a n = block_ok h a n"
proof (cases p)
  case (Null k)
  then show ?thesis by (simp add: put_cell_def)
next
  case (Addr b i)
  show ?thesis
  proof (cases "a = b")
    case True
    then show ?thesis using Addr by (auto simp: put_cell_def block_ok_def)
  next
    case False
    then show ?thesis using Addr by (simp add: put_cell_def block_ok_def)
  qed
qed

lemma cell_at_block_ok: "block_ok h a n \<Longrightarrow> (cell_at h (Addr a k) \<noteq> None) = (k < n)"
  by (auto simp: cell_at_def block_ok_def)

lemma load_cell_at: "(load h p = Some x) = (cell_at h p = Some (Obj x))"
  by (auto simp: load_def split: option.splits cell.splits)

lemma load_put_cell:
  "cell_at h p \<noteq> None \<Longrightarrow> load (put_cell h p c) q = (if q = p then (case c of Raw \<Rightarrow> None | Obj x \<Rightarrow> Some x) else load h q)"
  by (simp add: load_def cell_at_put_cell split: cell.splits)

lemma destroy_live: "load h p = Some x \<Longrightarrow> destroy p h = Some (put_cell h p Raw)"
  by (simp add: destroy_def load_cell_at)

lemma destroy_range_live:
  "(\<forall>k. i \<le> k \<and> k < n \<longrightarrow> load h (ptr_add p k) \<noteq> None) \<Longrightarrow>
   \<exists>h'. destroy_range p i n h = Some h' \<and> length h' = length h \<and>
        (\<forall>a m. block_ok h' a m = block_ok h a m) \<and>
        (\<forall>k. i \<le> k \<and> k < n \<longrightarrow> cell_at h' (ptr_add p k) = Some Raw) \<and>
        (\<forall>q. (\<forall>k. i \<le> k \<and> k < n \<longrightarrow> q \<noteq> ptr_add p k) \<longrightarrow> cell_at h' q = cell_at h q)"
proof (induction p i n h rule: destroy_range.induct)
  case (1 p i n h)
  show ?case
  proof (cases "i < n")
    case False
    then show ?thesis by (auto simp: destroy_range.simps)
  next
    case True
    with "1.prems" obtain x where x: "load h (ptr_add p i) = Some x" by auto
    let ?h1 = "put_cell h (ptr_add p i) Raw"
    have d: "destroy (ptr_add p i) h = Some ?h1" using x by (rule destroy_live)
    have c: "cell_at h (ptr_add p i) \<noteq> None" using x by (simp add: load_cell_at)
    have pre: "\<forall>k. Suc i \<le> k \<and> k < n \<longrightarrow> load ?h1 (ptr_add p k) \<noteq> None"
      using "1.prems" c by (auto simp: load_put_cell ptr_add_inj)
    from "1.IH" [OF True d pre] obtain h' where
      r: "destroy_range p (Suc i) n ?h1 = Some h'" and
      l: "length h' = length ?h1" and
      b: "\<forall>a m. block_ok h' a m = block_ok ?h1 a m" and
      q1: "\<forall>k. Suc i \<le> k \<and> k < n \<longrightarrow> cell_at h' (ptr_add p k) = Some Raw" and
      q2: "\<forall>q. (\<forall>k. Suc i \<le> k \<and> k < n \<longrightarrow> q \<noteq> ptr_add p k) \<longrightarrow> cell_at h' q = cell_at ?h1 q"
      by blast
    have "destroy_range p i n h = Some h'"
      using True d r by (subst destroy_range.simps) simp
    moreover have "length h' = length h" using l by (simp add: length_put_cell)
    moreover have "\<forall>a m. block_ok h' a m = block_ok h a m"
      using b by (simp add: block_ok_put_cell)
    moreover have "\<forall>k. i \<le> k \<and> k < n \<longrightarrow> cell_at h' (ptr_add p k) = Some Raw"
    proof (intro allI impI)
      fix k assume k: "i \<le> k \<and> k < n"
      show "cell_at h' (ptr_add p k) = Some Raw"
      proof (cases "k = i")
        case True
        have "cell_at h' (ptr_add p i) = cell_at ?h1 (ptr_add p i)"
          using q2 by (simp add: ptr_add_inj)
        then show ?thesis using True c by (simp add: cell_at_put_cell)
      next
        case False
        then show ?thesis using q1 k by simp
      qed
    qed
    moreover have "\<forall>q. (\<forall>k. i \<le> k \<and> k < n \<longrightarrow> q \<noteq> ptr_add p k) \<longrightarrow> cell_at h' q = cell_at h q"
    proof (intro allI impI)
      fix q assume a: "\<forall>k. i \<le> k \<and> k < n \<longrightarrow> q \<noteq> ptr_add p k"
      then have "q \<noteq> ptr_add p i" using True by auto
      moreover have "cell_at h' q = cell_at ?h1 q" using q2 a by simp
      ultimately show "cell_at h' q = cell_at h q" using c by (simp add: cell_at_put_cell)
    qed
    ultimately show ?thesis by blast
  qed
qed

section \<open>Clear\<close>

text \<open>
  Claim C9 says that after \<^verbatim>\<open>clear()\<close> the accessor \<^verbatim>\<open>data()\<close> is non-null exactly
  when the capacity before the call was positive.  On the vector holding the value 1 with
  capacity 1, \<^verbatim>\<open>clear()\<close> leaves capacity 1 and \<^verbatim>\<open>data()\<close> returns the null pointer.
\<close>

theorem clear_data_counterexample:
  "clear (\<lparr>data_m = Addr 0 0, size_m = 1, capacity_m = 1\<rparr>,
          [\<lparr>cells = [Obj (1 :: int)], released = False\<rparr>]) =
     Ok () (\<lparr>data_m = Addr 0 0, size_m = 0, capacity_m = 1\<rparr>,
            [\<lparr>cells = [Raw], released = False\<rparr>]) \<and>
   \<not> ((data \<lparr>data_m = Addr 0 0, size_m = 0, capacity_m = 1\<rparr> \<noteq> Null 0) =
       (0 < capacity \<lparr>data_m = Addr 0 0, size_m = 1, capacity_m = 1\<rparr>))"
  by code_simp

lemma clear_live:
  assumes "live v h"
  shows "\<exists>v' h'. clear (v, h) = Ok () (v', h') \<and>
           vsize v' = 0 \<and> capacity v' = capacity v \<and> data_m v' = data_m v \<and>
           data v' = Null 0 \<and>
           (\<forall>k. k < vsize v \<longrightarrow> cell_at h' (index v k) = Some Raw) \<and>
           (\<forall>q. (\<forall>k. k < vsize v \<longrightarrow> q \<noteq> index v k) \<longrightarrow> cell_at h' q = cell_at h q) \<and>
           length h' = length h \<and> (\<forall>a m. block_ok h' a m = block_ok h a m)"
proof -
  from assms have "\<forall>k. 0 \<le> k \<and> k < size_m v \<longrightarrow> load h (ptr_add (data_m v) k) \<noteq> None"
    by (simp add: live_def list_all_iff index_def)
  from destroy_range_live [OF this] obtain h' where
    r: "destroy_range (data_m v) 0 (size_m v) h = Some h'" and
    l: "length h' = length h" and
    b: "\<forall>a m. block_ok h' a m = block_ok h a m" and
    q1: "\<forall>k. 0 \<le> k \<and> k < size_m v \<longrightarrow> cell_at h' (ptr_add (data_m v) k) = Some Raw" and
    q2: "\<forall>q. (\<forall>k. 0 \<le> k \<and> k < size_m v \<longrightarrow> q \<noteq> ptr_add (data_m v) k) \<longrightarrow>
             cell_at h' q = cell_at h q"
    by blast
  have "clear (v, h) = Ok () (v\<lparr>size_m := 0\<rparr>, h')"
    using r by (simp add: clear_def)
  moreover have "data (v\<lparr>size_m := 0\<rparr>) = Null 0"
    by (simp add: data_def vempty_def)
  ultimately show ?thesis
    using l b q1 q2 by (simp add: vsize_def capacity_def index_def)
qed

text \<open>
  Claim C9, amended.  For every vector whose first \<open>size\<close> slots hold live objects,
  \<^verbatim>\<open>clear()\<close> returns normally, destroys exactly these objects (their slots become raw
  storage and every other slot of the store is as before), sets the size to 0 and leaves
  the capacity, the buffer pointer and the allocation state of every buffer unchanged.
  After it \<^verbatim>\<open>data()\<close> returns the null pointer, whatever the capacity is.
\<close>

theorem clear_effect:
  assumes "live v h"
  shows "\<exists>v' h'. clear (v, h) = Ok () (v', h') \<and>
           vsize v' = 0 \<and> capacity v' = capacity v \<and> data_m v' = data_m v \<and>
           data v' = Null 0 \<and>
           (\<forall>k. k < vsize v \<longrightarrow> cell_at h' (index v k) = Some Raw) \<and>
           (\<forall>q. (\<forall>k. k < vsize v \<longrightarrow> q \<noteq> index v k) \<longrightarrow> cell_at h' q = cell_at h q) \<and>
           length h' = length h \<and> (\<forall>a m. block_ok h' a m = block_ok h a m)"
  using assms by (rule clear_live)

theorem clear_effect_witness:
  "live \<lparr>data_m = Addr 0 0, size_m = 2, capacity_m = 3\<rparr>
        [\<lparr>cells = [Obj (4 :: int), Obj 5, Raw], released = False\<rparr>] \<and>
   clear (\<lparr>data_m = Addr 0 0, size_m = 2, capacity_m = 3\<rparr>,
          [\<lparr>cells = [Obj (4 :: int), Obj 5, Raw], released = False\<rparr>]) =
     Ok () (\<lparr>data_m = Addr 0 0, size_m = 0, capacity_m = 3\<rparr>,
            [\<lparr>cells = [Raw, Raw, Raw], released = False\<rparr>]) \<and>
   data \<lparr>data_m = Addr 0 0, size_m = 0, capacity_m = 3\<rparr> = Null 0"
proof -
  have l: "live \<lparr>data_m = Addr 0 0, size_m = 2, capacity_m = 3\<rparr>
        [\<lparr>cells = [Obj (4 :: int), Obj 5, Raw], released = False\<rparr>]"
    by code_simp
  have c: "clear (\<lparr>data_m = Addr 0 0, size_m = 2, capacity_m = 3\<rparr>,
          [\<lparr>cells = [Obj (4 :: int), Obj 5, Raw], released = False\<rparr>]) =
     Ok () (\<lparr>data_m = Addr 0 0, size_m = 0, capacity_m = 3\<rparr>,
            [\<lparr>cells = [Raw, Raw, Raw], released = False\<rparr>])"
    by code_simp
  from clear_effect [OF l] c show ?thesis
    using l by auto
qed

section \<open>Size and capacity\<close>

lemma reallocate_Ok:
  "reallocate E n (v, h) = Ok u (v', h') \<Longrightarrow> size_m v' = size_m v \<and> capacity_m v' = n"
  by (auto simp: reallocate_def allocate_def split: outcome.splits option.splits prod.splits if_splits)

lemma reallocate_Throw: "reallocate E n (v, h) = Throw e (v', h') \<Longrightarrow> v' = v"
  by (auto simp: reallocate_def allocate_def split: outcome.splits option.splits prod.splits if_splits)

lemma reserve_Ok:
  "reserve E n (v, h) = Ok u (v', h') \<Longrightarrow>
     size_m v' = size_m v \<and> n \<le> capacity_m v' \<and> capacity_m v \<le> capacity_m v'"
  by (auto simp: reserve_def dest: reallocate_Ok split: if_splits)

lemma reserve_Throw: "reserve E n (v, h) = Throw e (v', h') \<Longrightarrow> v' = v"
  by (auto simp: reserve_def dest: reallocate_Throw split: if_splits)

lemma push_back_within:
  "within v \<Longrightarrow> after (\<lambda>s. within (fst s)) (push_back E x (v, h))"
  unfolding after_def within_def push_back_def
  by (auto split: outcome.splits if_splits dest!: reserve_Ok reserve_Throw)

lemma push_back_rv_within:
  "within v \<Longrightarrow> after (\<lambda>s. within (fst s)) (push_back_rv E x (v, h))"
  unfolding after_def within_def push_back_rv_def
  by (auto split: outcome.splits if_splits dest!: reserve_Ok reserve_Throw)

lemma pop_back_within:
  "within v \<Longrightarrow> after (\<lambda>s. within (fst s)) (pop_back (v, h))"
  unfolding after_def within_def pop_back_def
  by (auto split: outcome.splits option.splits if_splits)

lemma resize_within:
  "within v \<Longrightarrow> n \<le> capacity_m v \<Longrightarrow> after (\<lambda>s. within (fst s)) (resize E n (v, h))"
  unfolding after_def within_def resize_def
  by (auto split: outcome.splits option.splits if_splits)

lemma reserve_within:
  "within v \<Longrightarrow> after (\<lambda>s. within (fst s)) (reserve E n (v, h))"
  unfolding after_def within_def
  by (auto split: outcome.splits dest!: reserve_Ok reserve_Throw)

lemma clear_within:
  "after (\<lambda>s. within (fst s) \<and> size_m (fst s) = 0 \<and> capacity_m (fst s) = capacity_m v) (clear (v, h))"
  unfolding after_def within_def clear_def
  by (auto split: outcome.splits option.splits)

lemma shrink_to_fit_within:
  "within v \<Longrightarrow> after (\<lambda>s. within (fst s)) (shrink_to_fit E (v, h))"
  unfolding after_def within_def shrink_to_fit_def
  by (auto simp: allocate_def Let_def split: outcome.splits option.splits if_splits)

lemma assing_loop_within:
  "within (fst s) \<Longrightarrow> after (\<lambda>s. within (fst s)) (assing_loop E x i n s)"
proof (induction E x i n s rule: assing_loop.induct)
  case (1 E val i n s)
  show ?case
  proof (cases "i < n")
    case False
    then show ?thesis using "1.prems" by (simp add: assing_loop.simps after_def)
  next
    case True
    have pb: "after (\<lambda>s. within (fst s)) (push_back E val s)"
      using push_back_within [where v = "fst s" and E = E and x = val and h = "snd s"]
        "1.prems" by simp
    show ?thesis
    proof (cases "push_back E val s")
      case (Ok u s1)
      then have "within (fst s1)" using pb by (simp add: after_def)
      then have "after (\<lambda>s. within (fst s)) (assing_loop E val (Suc i) n s1)"
        using "1.IH" [OF True Ok] by simp
      then show ?thesis using True Ok by (subst assing_loop.simps) simp
    next
      case (Throw e s1)
      then show ?thesis using True pb by (subst assing_loop.simps) (simp add: after_def)
    next
      case Undefined
      then show ?thesis using True by (subst assing_loop.simps) (simp add: after_def)
    qed
  qed
qed

lemma assing_within:
  "after (\<lambda>s. within (fst s)) (assing E n x (v, h))"
proof (cases "clear (v, h)")
  case (Ok u s1)
  then have "within (fst s1)" using clear_within [of v h] by (simp add: after_def)
  then show ?thesis
    using Ok assing_loop_within [where s = s1 and E = E and x = x and i = 0 and n = n]
    by (simp add: assing_def)
next
  case (Throw e s1)
  then show ?thesis using clear_within [of v h] by (simp add: assing_def after_def)
next
  case Undefined
  then show ?thesis by (simp add: assing_def after_def)
qed

lemma MyVector_fill_within: "after (\<lambda>s. within (fst s)) (MyVector_fill E n x h)"
  unfolding after_def within_def MyVector_fill_def
  by (auto simp: allocate_def empty_vector_def split: outcome.splits prod.splits
      dest!: reserve_Ok reserve_Throw)

lemma MyVector_range_within: "after (\<lambda>s. within (fst s)) (MyVector_range E xs h)"
  unfolding after_def within_def MyVector_range_def
  by (auto simp: Let_def empty_vector_def split: outcome.splits prod.splits
      dest!: reserve_Ok reserve_Throw)

lemma MyVector_copy_within:
  "within other \<Longrightarrow> after (\<lambda>s. within (fst s)) (MyVector_copy E other h)"
  unfolding after_def within_def MyVector_copy_def
  by (auto simp: empty_vector_def split: outcome.splits prod.splits
      dest!: reserve_Ok reserve_Throw)

lemma MyVector_move_within:
  "within other \<Longrightarrow> within (fst (MyVector_move other)) \<and> within (snd (MyVector_move other))"
  by (simp add: within_def MyVector_move_def)

lemma swap_within:
  "within a \<Longrightarrow> within b \<Longrightarrow> within (fst (swap a b)) \<and> within (snd (swap a b))"
  by (simp add: within_def swap_def)

lemma copy_assign_within:
  "within other \<Longrightarrow> after (\<lambda>s. within (fst s)) (copy_assign E this other h)"
proof (cases "clear (this, h)")
  case (Ok u s1)
  obtain v1 h1 where s1: "s1 = (v1, h1)" by (cases s1)
  have z: "size_m v1 = 0" using clear_within [of this h] Ok s1 by (simp add: after_def)
  assume o: "within other"
  show ?thesis using Ok s1 z o
    unfolding after_def within_def copy_assign_def
    by (auto split: outcome.splits prod.splits dest!: reserve_Ok reserve_Throw)
next
  case (Throw e s1)
  then show ?thesis using clear_within [of this h] by (simp add: copy_assign_def after_def)
next
  case Undefined
  then show ?thesis by (simp add: copy_assign_def after_def)
qed

lemma move_assign_within:
  "within other \<Longrightarrow>
   after (\<lambda>s. within (fst s) \<and> within (fst (snd s))) (move_assign this other h)"
  using clear_within [of this h]
  unfolding after_def within_def move_assign_def
  by (auto simp: Let_def split: outcome.splits option.splits prod.splits)


lemma list_all_update: "list_all P xs \<Longrightarrow> P x \<Longrightarrow> list_all P (xs[i := x])"
  by (metis list_all_iff set_update_subset_insert insert_iff subsetD)

lemma created_within:
  "all_within w \<Longrightarrow> after (\<lambda>s. within (fst s)) r \<Longrightarrow> after all_within (created w r)"
  by (auto simp: after_def created_def all_within_def split: outcome.splits)

lemma updated_within:
  "all_within w \<Longrightarrow> after (\<lambda>s. within (fst s)) r \<Longrightarrow> after all_within (updated w i r)"
  by (auto simp: after_def updated_def all_within_def list_all_update split: outcome.splits)

lemma nth_within: "all_within w \<Longrightarrow> i < length (vecs w) \<Longrightarrow> within (vecs w ! i)"
  by (simp add: all_within_def list_all_length)

lemma step_within:
  assumes w: "all_within w" and f: "fits a w"
  shows "after all_within (step E a w)"
proof (cases a)
  case NewDefault
  then show ?thesis using w
    by (simp add: after_def all_within_def within_def empty_vector_def)
next
  case (NewFill n x)
  then show ?thesis using w by (simp add: created_within MyVector_fill_within)
next
  case (NewRange xs)
  then show ?thesis using w by (simp add: created_within MyVector_range_within)
next
  case (NewCopy j)
  then show ?thesis using w
    by (simp add: created_within MyVector_copy_within nth_within) (simp add: after_def)
next
  case (NewMove j)
  show ?thesis
  proof (cases "j < length (vecs w)")
    case True
    then have "within (vecs w ! j)" using w by (rule nth_within [rotated])
    then show ?thesis using NewMove True w
      by (auto simp: after_def all_within_def MyVector_move_def within_def list_all_update)
  next
    case False
    then show ?thesis using NewMove by (simp add: after_def)
  qed
next
  case (PushBack i x)
  then show ?thesis using w
    by (simp add: updated_within push_back_within nth_within) (simp add: after_def)
next
  case (PushBackRv i x)
  then show ?thesis using w
    by (simp add: updated_within push_back_rv_within nth_within) (simp add: after_def)
next
  case (PopBack i)
  then show ?thesis using w
    by (simp add: updated_within pop_back_within nth_within) (simp add: after_def)
next
  case (Resize i n)
  then show ?thesis using w f
    by (simp add: updated_within resize_within nth_within)
next
  case (Reserve i n)
  then show ?thesis using w
    by (simp add: updated_within reserve_within nth_within) (simp add: after_def)
next
  case (Clear i)
  have "after (\<lambda>s. within (fst s)) (clear (vecs w ! i, mem w))"
    using clear_within [of "vecs w ! i" "mem w"] by (auto simp: after_def split: outcome.splits)
  then show ?thesis using Clear w
    by (simp add: updated_within) (simp add: after_def)
next
  case (ShrinkToFit i)
  then show ?thesis using w
    by (simp add: updated_within shrink_to_fit_within nth_within) (simp add: after_def)
next
  case (Assing i n x)
  then show ?thesis using w
    by (simp add: updated_within assing_within) (simp add: after_def)
next
  case (PushBackAt i j k)
  then show ?thesis using w
    by (simp add: updated_within push_back_within nth_within) (simp add: after_def)
next
  case (PushBackRvAt i j k)
  then show ?thesis using w
    by (simp add: updated_within push_back_rv_within nth_within) (simp add: after_def)
next
  case (AssingAt i n j k)
  then show ?thesis using w
    by (simp add: updated_within assing_within) (simp add: after_def)
next
  case (Swap i j)
  show ?thesis
  proof (cases "i < length (vecs w) \<and> j < length (vecs w)")
    case True
    then have "within (vecs w ! i)" "within (vecs w ! j)" using w by (simp_all add: nth_within)
    then show ?thesis using Swap True w
      by (auto simp: after_def all_within_def swap_def within_def list_all_update)
  next
    case False
    then show ?thesis using Swap by (auto simp: after_def)
  qed
next
  case (CopyAssign i j)
  show ?thesis
  proof (cases "i < length (vecs w) \<and> j < length (vecs w)")
    case True
    then have "within (vecs w ! j)" using w by (simp add: nth_within)
    then show ?thesis using CopyAssign True w
      by (simp add: updated_within copy_assign_within) (simp add: after_def)
  next
    case False
    then show ?thesis using CopyAssign by (auto simp: after_def)
  qed
next
  case (MoveAssign i j)
  show ?thesis
  proof (cases "i < length (vecs w) \<and> j < length (vecs w)")
    case True
    then have "within (vecs w ! j)" using w by (simp add: nth_within)
    then have "after (\<lambda>s. within (fst s) \<and> within (fst (snd s)))
                 (move_assign (vecs w ! i) (vecs w ! j) (mem w))"
      by (rule move_assign_within)
    then show ?thesis using MoveAssign True w
      by (auto simp: after_def all_within_def list_all_update split: outcome.splits)
  next
    case False
    then show ?thesis using MoveAssign by (auto simp: after_def)
  qed
qed

lemma run_within:
  "all_within w \<Longrightarrow> resizes_fit E as w \<Longrightarrow> run E as w = Some w' \<Longrightarrow> all_within w'"
proof (induction as arbitrary: w)
  case Nil
  then show ?case by simp
next
  case (Cons a as)
  from Cons.prems have f: "fits a w" by simp
  have st: "after all_within (step E a w)" using Cons.prems(1) f by (rule step_within)
  show ?case
  proof (cases "step E a w")
    case (Ok u w1)
    then show ?thesis using Cons st by (simp add: after_def)
  next
    case (Throw e w1)
    then show ?thesis using Cons st by (simp add: after_def)
  next
    case Undefined
    then show ?thesis using Cons.prems by simp
  qed
qed

text \<open>
  Claim C2 says that \<open>size \<le> capacity\<close> holds in every state reachable by the public
  operations.  On a default-constructed vector \<^verbatim>\<open>resize(1)\<close> sets the size to 1 and
  leaves the capacity 0.
\<close>

theorem size_exceeds_capacity_counterexample:
  "run trivial_ops [NewDefault, Resize 0 1] initial_world =
     Some \<lparr>vecs = [\<lparr>data_m = Null 0, size_m = 1, capacity_m = 0\<rparr>], mem = []\<rparr> \<and>
   \<not> vsize \<lparr>data_m = Null 0, size_m = 1, capacity_m = 0\<rparr>
       \<le> capacity \<lparr>data_m = Null 0, size_m = 1, capacity_m = 0\<rparr>"
  by code_simp

text \<open>
  Claim C2, amended.  In every state that a program reaches from no vectors at all by
  constructions (default, sized, range, copy, move), \<^verbatim>\<open>push_back\<close>, \<^verbatim>\<open>pop_back\<close>,
  \<^verbatim>\<open>resize\<close>, \<^verbatim>\<open>reserve\<close>, \<^verbatim>\<open>clear\<close>, \<^verbatim>\<open>shrink_to_fit\<close>, \<^verbatim>\<open>assing\<close>, \<^verbatim>\<open>swap\<close>, copy
  and move assignment, whether the operations return or throw, every vector has
  \<open>size \<le> capacity\<close>, provided that each call of \<^verbatim>\<open>resize\<close> asks for a size that is at
  most the capacity the vector has at that moment.  The arguments of \<^verbatim>\<open>push_back\<close> and
  \<^verbatim>\<open>assing\<close> are objects outside the store or elements of any vector, the vector
  itself included.
\<close>

theorem size_within_capacity:
  "run E as initial_world = Some w \<Longrightarrow> resizes_fit E as initial_world \<Longrightarrow>
     \<forall>v \<in> set (vecs w). vsize v \<le> capacity v"
proof -
  assume r: "run E as initial_world = Some w" and f: "resizes_fit E as initial_world"
  have "all_within (initial_world :: 'a world)"
    by (simp add: all_within_def initial_world_def)
  then have "all_within w" using f r by (rule run_within)
  then show ?thesis
    by (simp add: all_within_def list_all_iff within_def vsize_def capacity_def)
qed

theorem size_within_capacity_witness:
  "run (failing_ops 6)
       [NewRange [1, 2, 3], NewDefault, PushBack 1 5, Reserve 1 4, Resize 1 3,
        PushBackRv 1 6, Resize 0 2, NewCopy 0, PushBack 0 7, PushBack 0 6, ShrinkToFit 0,
        Swap 0 1, NewMove 1, MoveAssign 1 0, NewFill 2 8, Clear 2, PopBack 4, Assing 4 3 1,
        CopyAssign 2 4, PushBackAt 0 0 0, PushBackRvAt 4 2 0, AssingAt 1 2 4 1] initial_world =
     Some \<lparr>vecs =
             [\<lparr>data_m = Addr 2 0, size_m = 4, capacity_m = 4\<rparr>,
              \<lparr>data_m = Addr 11 0, size_m = 2, capacity_m = 2\<rparr>,
              \<lparr>data_m = Addr 9 0, size_m = 3, capacity_m = 4\<rparr>,
              \<lparr>data_m = Addr 4 0, size_m = 4, capacity_m = 6\<rparr>,
              \<lparr>data_m = Addr 8 0, size_m = 4, capacity_m = 4\<rparr>],
           mem =
             [\<lparr>cells = [Raw, Raw, Raw], released = True\<rparr>,
              \<lparr>cells = [Raw], released = True\<rparr>,
              \<lparr>cells = [Obj 5, Raw, Raw, Obj 5], released = False\<rparr>,
              \<lparr>cells = [Raw, Raw, Raw], released = True\<rparr>,
              \<lparr>cells = [Obj 1, Obj 2, Obj 7, Obj 6, Raw, Raw], released = False\<rparr>,
              \<lparr>cells = [Obj 1, Obj 2, Obj 7, Raw], released = True\<rparr>,
              \<lparr>cells = [Raw, Raw], released = True\<rparr>,
              \<lparr>cells = [Raw, Raw], released = False\<rparr>,
              \<lparr>cells = [Obj 1, Obj 1, Obj 1, Obj 1], released = False\<rparr>,
              \<lparr>cells = [Obj 1, Obj 1, Obj 1, Raw], released = False\<rparr>,
              \<lparr>cells = [Raw], released = True\<rparr>,
              \<lparr>cells = [Obj 1, Obj 1], released = False\<rparr>]\<rparr> \<and>
   resizes_fit (failing_ops 6)
       [NewRange [1, 2, 3], NewDefault, PushBack 1 5, Reserve 1 4, Resize 1 3,
        PushBackRv 1 6, Resize 0 2, NewCopy 0, PushBack 0 7, PushBack 0 6, ShrinkToFit 0,
        Swap 0 1, NewMove 1, MoveAssign 1 0, NewFill 2 8, Clear 2, PopBack 4, Assing 4 3 1,
        CopyAssign 2 4, PushBackAt 0 0 0, PushBackRvAt 4 2 0, AssingAt 1 2 4 1] initial_world \<and>
   list_all (\<lambda>v. vsize v \<le> capacity v)
     [\<lparr>data_m = Addr 2 0, size_m = 4, capacity_m = 4\<rparr>,
      \<lparr>data_m = Addr 11 0, size_m = 2, capacity_m = 2\<rparr>,
      \<lparr>data_m = Addr 9 0, size_m = 3, capacity_m = 4\<rparr>,
      \<lparr>data_m = Addr 4 0, size_m = 4, capacity_m = 6\<rparr>,
      \<lparr>data_m = Addr 8 0, size_m = 4, capacity_m = 4\<rparr>]"
proof -
  let ?as = "[NewRange [1, 2, 3], NewDefault, PushBack 1 5, Reserve 1 4, Resize 1 3,
        PushBackRv 1 6, Resize 0 2, NewCopy 0, PushBack 0 7, PushBack 0 6, ShrinkToFit 0,
        Swap 0 1, NewMove 1, MoveAssign 1 0, NewFill 2 8, Clear 2, PopBack 4, Assing 4 3 1,
        CopyAssign 2 4, PushBackAt 0 0 0, PushBackRvAt 4 2 0, AssingAt 1 2 4 1]"
  let ?w = "\<lparr>vecs =
             [\<lparr>data_m = Addr 2 0, size_m = 4, capacity_m = 4\<rparr>,
              \<lparr>data_m = Addr 11 0, size_m = 2, capacity_m = 2\<rparr>,
              \<lparr>data_m = Addr 9 0, size_m = 3, capacity_m = 4\<rparr>,
              \<lparr>data_m = Addr 4 0, size_m = 4, capacity_m = 6\<rparr>,
              \<lparr>data_m = Addr 8 0, size_m = 4, capacity_m = 4\<rparr>],
           mem =
             [\<lparr>cells = [Raw, Raw, Raw], released = True\<rparr>,
              \<lparr>cells = [Raw], released = True\<rparr>,
              \<lparr>cells = [Obj 5, Raw, Raw, Obj 5], released = False\<rparr>,
              \<lparr>cells = [Raw, Raw, Raw], released = True\<rparr>,
              \<lparr>cells = [Obj 1, Obj 2, Obj 7, Obj 6, Raw, Raw], released = False\<rparr>,
              \<lparr>cells = [Obj 1, Obj 2, Obj 7, Raw], released = True\<rparr>,
              \<lparr>cells = [Raw, Raw], released = True\<rparr>,
              \<lparr>cells = [Raw, Raw], released = False\<rparr>,
              \<lparr>cells = [Obj 1, Obj 1, Obj 1, Obj 1], released = False\<rparr>,
              \<lparr>cells = [Obj (1 :: int), Obj 1, Obj 1, Raw], released = False\<rparr>,
              \<lparr>cells = [Raw], released = True\<rparr>,
              \<lparr>cells = [Obj 1, Obj 1], released = False\<rparr>]\<rparr>"
  have r: "run (failing_ops 6) ?as initial_world = Some ?w"
    by code_simp
  have f: "resizes_fit (failing_ops 6) ?as initial_world"
    by code_simp
  from size_within_capacity [OF r f] r f show ?thesis
    by (simp add: list_all_iff)
qed

section \<open>Appending\<close>

lemma block_ok_append: "a < length h \<Longrightarrow> block_ok (h @ [b]) a m = block_ok h a m"
  by (simp add: block_ok_def nth_append)

lemma cell_at_append: "a < length h \<Longrightarrow> cell_at (h @ [b]) (Addr a k) = cell_at h (Addr a k)"
  by (simp add: cell_at_def nth_append)

lemma block_ok_fresh: "block_ok (h @ [\<lparr>cells = replicate n Raw, released = False\<rparr>]) (length h) n"
  by (simp add: block_ok_def)

lemma deallocate_ok:
  "block_ok h a n \<Longrightarrow> deallocate (Addr a 0) n h = Some (h[a := (h ! a)\<lparr>released := True\<rparr>])"
  by (simp add: deallocate_def block_ok_def)

lemma block_ok_release: "b \<noteq> a \<Longrightarrow> block_ok (h[a := x]) b m = block_ok h b m"
  by (simp add: block_ok_def)

lemma cell_at_release: "b \<noteq> a \<Longrightarrow> cell_at (h[a := x]) (Addr b k) = cell_at h (Addr b k)"
  by (simp add: cell_at_def)

lemma load_eq_cell: "cell_at h p = cell_at h' q \<Longrightarrow> load h p = load h' q"
  by (simp add: load_def)

lemma move_step:
  assumes vp: "value_preserving E"
    and ab: "a \<noteq> b"
    and src: "load h (Addr a i) = Some x"
    and dst: "cell_at h (Addr b i) \<noteq> None"
  shows "\<exists>h1 h2. construct_move E (Addr b i) (Addr a i) h = Ok () h1 \<and>
           destroy (Addr a i) h1 = Some h2 \<and> length h2 = length h \<and>
           (\<forall>c m. block_ok h2 c m = block_ok h c m) \<and>
           cell_at h2 (Addr b i) = Some (Obj x) \<and>
           cell_at h2 (Addr a i) = Some Raw \<and>
           (\<forall>q. q \<noteq> Addr a i \<and> q \<noteq> Addr b i \<longrightarrow> cell_at h2 q = cell_at h q)"
proof -
  from vp obtain r where m: "move_ctor E x = Some (x, r)"
    by (auto simp: value_preserving_def)
  let ?h0 = "put_cell h (Addr b i) (Obj x)"
  let ?h1 = "put_cell ?h0 (Addr a i) (Obj r)"
  let ?h2 = "put_cell ?h1 (Addr a i) Raw"
  have sa: "cell_at h (Addr a i) \<noteq> None" using src by (simp add: load_cell_at)
  have sa0: "cell_at ?h0 (Addr a i) \<noteq> None" using sa dst ab by (simp add: cell_at_put_cell)
  have sa1: "cell_at ?h1 (Addr a i) = Some (Obj r)" using sa0 by (simp add: cell_at_put_cell)
  have c: "construct_move E (Addr b i) (Addr a i) h = Ok () ?h1"
    using dst src m by (auto simp: construct_move_def)
  have d: "destroy (Addr a i) ?h1 = Some ?h2"
    using sa1 by (simp add: destroy_def)
  have q: "\<forall>q. cell_at ?h2 q = (if q = Addr a i then Some Raw
             else if q = Addr b i then Some (Obj x) else cell_at h q)"
    using sa0 sa1 dst by (simp add: cell_at_put_cell)
  show ?thesis
    using c d q ab by (simp add: length_put_cell block_ok_put_cell)
qed

lemma realloc_loop_ok:
  assumes vp: "value_preserving E" and ab: "a \<noteq> b"
  shows "i \<le> n \<Longrightarrow> block_ok h a ca \<Longrightarrow> block_ok h b cb \<Longrightarrow> n \<le> ca \<Longrightarrow> n \<le> cb \<Longrightarrow>
     (\<forall>k. i \<le> k \<and> k < n \<longrightarrow> load h (Addr a k) \<noteq> None) \<Longrightarrow>
     \<exists>h'. realloc_loop E (Addr a 0) (Addr b 0) i n h = Ok () (n, h') \<and>
          length h' = length h \<and> (\<forall>c m. block_ok h' c m = block_ok h c m) \<and>
          (\<forall>k. i \<le> k \<and> k < n \<longrightarrow> load h' (Addr b k) = load h (Addr a k)) \<and>
          (\<forall>k. k < i \<or> n \<le> k \<longrightarrow> cell_at h' (Addr b k) = cell_at h (Addr b k)) \<and>
          (\<forall>c k. c \<noteq> a \<and> c \<noteq> b \<longrightarrow> cell_at h' (Addr c k) = cell_at h (Addr c k))"
proof (induction "n - i" arbitrary: i h)
  case 0
  then have "i = n" by simp
  then show ?case by (auto simp: realloc_loop.simps)
next
  case (Suc d)
  then have lt: "i < n" by simp
  with Suc.prems obtain x where src: "load h (Addr a i) = Some x" by auto
  have dst: "cell_at h (Addr b i) \<noteq> None"
    using Suc.prems lt by (auto simp: cell_at_def block_ok_def)
  from move_step [OF vp ab src dst] obtain h1 h2 where
    c: "construct_move E (Addr b i) (Addr a i) h = Ok () h1" and
    d: "destroy (Addr a i) h1 = Some h2" and
    l: "length h2 = length h" and
    b: "\<forall>c m. block_ok h2 c m = block_ok h c m" and
    nb: "cell_at h2 (Addr b i) = Some (Obj x)" and
    fr: "\<forall>q. q \<noteq> Addr a i \<and> q \<noteq> Addr b i \<longrightarrow> cell_at h2 q = cell_at h q"
    by blast
  have pre: "\<forall>k. Suc i \<le> k \<and> k < n \<longrightarrow> load h2 (Addr a k) \<noteq> None"
  proof (intro allI impI)
    fix k assume k: "Suc i \<le> k \<and> k < n"
    then have "cell_at h2 (Addr a k) = cell_at h (Addr a k)" using fr ab by simp
    then have "load h2 (Addr a k) = load h (Addr a k)" by (rule load_eq_cell)
    then show "load h2 (Addr a k) \<noteq> None" using Suc.prems k by simp
  qed
  have "d = n - Suc i" using Suc.hyps(2) by simp
  from Suc.hyps(1) [OF this, of h2] lt Suc.prems b pre obtain h' where
    r: "realloc_loop E (Addr a 0) (Addr b 0) (Suc i) n h2 = Ok () (n, h')" and
    l': "length h' = length h2" and
    b': "\<forall>c m. block_ok h' c m = block_ok h2 c m" and
    m': "\<forall>k. Suc i \<le> k \<and> k < n \<longrightarrow> load h' (Addr b k) = load h2 (Addr a k)" and
    f': "\<forall>k. k < Suc i \<or> n \<le> k \<longrightarrow> cell_at h' (Addr b k) = cell_at h2 (Addr b k)" and
    o': "\<forall>c k. c \<noteq> a \<and> c \<noteq> b \<longrightarrow> cell_at h' (Addr c k) = cell_at h2 (Addr c k)"
    by auto
  have "realloc_loop E (Addr a 0) (Addr b 0) i n h = Ok () (n, h')"
    using lt c d r by (subst realloc_loop.simps) simp
  moreover have "\<forall>k. i \<le> k \<and> k < n \<longrightarrow> load h' (Addr b k) = load h (Addr a k)"
  proof (intro allI impI)
    fix k assume k: "i \<le> k \<and> k < n"
    show "load h' (Addr b k) = load h (Addr a k)"
    proof (cases "k = i")
      case True
      have "cell_at h' (Addr b i) = Some (Obj x)" using f' nb by simp
      then show ?thesis using True src by (simp add: load_def)
    next
      case False
      then have "load h' (Addr b k) = load h2 (Addr a k)" using m' k by simp
      moreover have "cell_at h2 (Addr a k) = cell_at h (Addr a k)" using fr ab False by simp
      ultimately show ?thesis by (simp add: load_def)
    qed
  qed
  moreover have "\<forall>k. k < i \<or> n \<le> k \<longrightarrow> cell_at h' (Addr b k) = cell_at h (Addr b k)"
  proof (intro allI impI)
    fix k assume k: "k < i \<or> n \<le> k"
    then have "k \<noteq> i" using lt by auto
    then have "cell_at h2 (Addr b k) = cell_at h (Addr b k)" using fr ab by simp
    moreover have "cell_at h' (Addr b k) = cell_at h2 (Addr b k)" using f' k by auto
    ultimately show "cell_at h' (Addr b k) = cell_at h (Addr b k)" by simp
  qed
  moreover have "\<forall>c k. c \<noteq> a \<and> c \<noteq> b \<longrightarrow> cell_at h' (Addr c k) = cell_at h (Addr c k)"
    using o' fr by simp
  ultimately show ?case using l l' b b' by simp
qed

lemma index_Addr: "data_m v = Addr a 0 \<Longrightarrow> index v k = Addr a k"
  by (simp add: index_def)

lemma live_iff: "live v h = (\<forall>k. k < size_m v \<longrightarrow> load h (index v k) \<noteq> None)"
  by (auto simp: live_def list_all_iff)

lemma valid_Addr:
  "valid v h \<Longrightarrow> 0 < capacity_m v \<Longrightarrow> \<exists>a. data_m v = Addr a 0 \<and> block_ok h a (capacity_m v)"
  by (cases "data_m v") (auto simp: valid_def)

lemma reallocate_valid:
  assumes vp: "value_preserving E" and v: "valid v h" and n: "size_m v \<le> n"
  shows "\<exists>h'. reallocate E n (v, h) =
            Ok () (v\<lparr>data_m := Addr (length h) 0, capacity_m := n\<rparr>, h') \<and>
          valid (v\<lparr>data_m := Addr (length h) 0, capacity_m := n\<rparr>) h' \<and>
          (\<forall>k. k < size_m v \<longrightarrow> load h' (Addr (length h) k) = load h (index v k)) \<and>
          (\<forall>c k. c < length h \<and> data_m v \<noteq> Addr c 0 \<longrightarrow>
                 cell_at h' (Addr c k) = cell_at h (Addr c k))"
proof -
  let ?b = "length h"
  let ?h0 = "h @ [\<lparr>cells = replicate n Raw, released = False\<rparr>]"
  let ?v' = "v\<lparr>data_m := Addr ?b 0, capacity_m := n\<rparr>"
  have al: "allocate n h = (Addr ?b 0, ?h0)" by (simp add: allocate_def)
  have b0: "block_ok ?h0 ?b n" by (rule block_ok_fresh)
  show ?thesis
  proof (cases "data_m v")
    case (Null k)
    with v have z: "k = 0" "size_m v = 0" by (auto simp: valid_def within_def)
    have "realloc_loop E (data_m v) (Addr ?b 0) 0 (size_m v) ?h0 = Ok () (0, ?h0)"
      using z by (simp add: realloc_loop.simps)
    then have "reallocate E n (v, h) = Ok () (?v', ?h0)"
      using al Null z by (simp add: reallocate_def)
    moreover have "valid ?v' ?h0"
      using z b0 by (simp add: valid_def within_def live_def)
    ultimately show ?thesis using z by (simp add: cell_at_append)
  next
    case (Addr a i)
    with v have i: "i = 0" and ba: "block_ok h a (capacity_m v)"
      and sc: "size_m v \<le> capacity_m v"
      by (auto simp: valid_def within_def)
    have dv: "data_m v = Addr a 0" using Addr i by simp
    have alt: "a < length h" using ba by (simp add: block_ok_def)
    then have ab: "a \<noteq> ?b" by simp
    have ba0: "block_ok ?h0 a (capacity_m v)" using ba alt by (simp add: block_ok_append)
    have lv: "\<forall>k. 0 \<le> k \<and> k < size_m v \<longrightarrow> load ?h0 (Addr a k) \<noteq> None"
      using v alt dv by (simp add: valid_def live_iff index_Addr load_def cell_at_append)
    from realloc_loop_ok [OF vp ab _ ba0 b0 sc n lv] obtain h1 where
      r: "realloc_loop E (Addr a 0) (Addr ?b 0) 0 (size_m v) ?h0 = Ok () (size_m v, h1)" and
      b1: "\<forall>c m. block_ok h1 c m = block_ok ?h0 c m" and
      m1: "\<forall>k. 0 \<le> k \<and> k < size_m v \<longrightarrow> load h1 (Addr ?b k) = load ?h0 (Addr a k)" and
      o1: "\<forall>c k. c \<noteq> a \<and> c \<noteq> ?b \<longrightarrow> cell_at h1 (Addr c k) = cell_at ?h0 (Addr c k)"
      by auto
    let ?h2 = "h1[a := (h1 ! a)\<lparr>released := True\<rparr>]"
    have "block_ok h1 a (capacity_m v)" using b1 ba0 by simp
    then have d: "deallocate (Addr a 0) (capacity_m v) h1 = Some ?h2" by (rule deallocate_ok)
    have re: "reallocate E n (v, h) = Ok () (?v', ?h2)"
      using al dv r d by (simp add: reallocate_def)
    have b2: "block_ok ?h2 ?b n" using b1 b0 ab by (simp add: block_ok_release)
    have m2: "\<forall>k. k < size_m v \<longrightarrow> load ?h2 (Addr ?b k) = load h (index v k)"
    proof (intro allI impI)
      fix k assume k: "k < size_m v"
      have "load ?h2 (Addr ?b k) = load h1 (Addr ?b k)"
        using ab by (simp add: load_def cell_at_release)
      also have "\<dots> = load ?h0 (Addr a k)" using m1 k by simp
      also have "\<dots> = load h (Addr a k)" using alt by (simp add: load_def cell_at_append)
      finally show "load ?h2 (Addr ?b k) = load h (index v k)" using dv by (simp add: index_Addr)
    qed
    have o2: "\<forall>c k. c < length h \<and> data_m v \<noteq> Addr c 0 \<longrightarrow>
                 cell_at ?h2 (Addr c k) = cell_at h (Addr c k)"
    proof (intro allI impI)
      fix c k assume c: "c < length h \<and> data_m v \<noteq> Addr c 0"
      then have ca: "c \<noteq> a" and cb: "c \<noteq> ?b" using dv by auto
      have "cell_at ?h2 (Addr c k) = cell_at h1 (Addr c k)"
        using ca by (simp add: cell_at_release)
      also have "\<dots> = cell_at ?h0 (Addr c k)" using o1 ca cb by simp
      also have "\<dots> = cell_at h (Addr c k)" using c by (simp add: cell_at_append)
      finally show "cell_at ?h2 (Addr c k) = cell_at h (Addr c k)" .
    qed
    have "live ?v' ?h2"
      using m2 v by (simp add: live_iff valid_def index_def)
    then have "valid ?v' ?h2" using b2 n by (simp add: valid_def within_def)
    then show ?thesis using re m2 o2 by blast
  qed
qed

text \<open>The first statement of \<^verbatim>\<open>push_back\<close> on a vector that satisfies the invariant.\<close>

lemma grow_if_full:
  assumes vp: "value_preserving E" and v: "valid v h"
  shows "\<exists>v1 h1. (if size_m v \<ge> capacity_m v
               then reserve E (if capacity_m v \<noteq> 0 then capacity_m v * 2 else 1) (v, h)
               else Ok () (v, h)) = Ok () (v1, h1) \<and>
            valid v1 h1 \<and> size_m v1 = size_m v \<and> size_m v1 < capacity_m v1 \<and>
            capacity_m v1 = (if size_m v < capacity_m v then capacity_m v
                             else if capacity_m v = 0 then 1 else 2 * capacity_m v) \<and>
            (\<forall>k. k < size_m v \<longrightarrow> load h1 (index v1 k) = load h (index v k)) \<and>
            (data_m v1 = data_m v \<or> data_m v1 = Addr (length h) 0) \<and>
            (\<forall>c k. c < length h \<and> data_m v \<noteq> Addr c 0 \<longrightarrow>
                   cell_at h1 (Addr c k) = cell_at h (Addr c k))"
proof -
  have sc: "size_m v \<le> capacity_m v" using v by (simp add: valid_def within_def)
  show ?thesis
  proof (cases "size_m v < capacity_m v")
    case True
    then show ?thesis using v by simp
  next
    case False
    let ?n = "if capacity_m v \<noteq> 0 then capacity_m v * 2 else 1"
    have gt: "\<not> ?n \<le> capacity_m v" by simp
    have lt: "size_m v < ?n" using sc by simp
    then have "size_m v \<le> ?n" by simp
    from reallocate_valid [OF vp v this] obtain h1 where
      "reallocate E ?n (v, h) = Ok () (v\<lparr>data_m := Addr (length h) 0, capacity_m := ?n\<rparr>, h1)"
      "valid (v\<lparr>data_m := Addr (length h) 0, capacity_m := ?n\<rparr>) h1"
      "\<forall>k. k < size_m v \<longrightarrow> load h1 (Addr (length h) k) = load h (index v k)"
      "\<forall>c k. c < length h \<and> data_m v \<noteq> Addr c 0 \<longrightarrow>
             cell_at h1 (Addr c k) = cell_at h (Addr c k)"
      by blast
    then show ?thesis using False gt lt
      by (simp add: reserve_def index_def mult.commute)
  qed
qed

text \<open>A reference that is apart from the vector stays so, and keeps its object.\<close>

lemma ref_stable:
  assumes ap: "apart v r" and d: "deref h r = Some x"
    and dm: "data_m vb = data_m v \<or> data_m vb = Addr (length h) 0"
    and fr: "\<forall>c k. c < length h \<and> data_m v \<noteq> Addr c 0 \<and> Loc (Addr c k) \<noteq> r0 \<longrightarrow>
               cell_at hb (Addr c k) = cell_at h (Addr c k)"
    and ne: "\<forall>p. r = Loc p \<longrightarrow> r0 \<noteq> Loc p"
  shows "apart vb r \<and> deref hb r = Some x"
proof (cases r)
  case (Ext y)
  then show ?thesis using d by simp
next
  case (Loc p)
  show ?thesis
  proof (cases p)
    case (Null k)
    then show ?thesis using Loc d by (simp add: load_def cell_at_def)
  next
    case (Addr c k)
    have c: "c < length h" using d Loc Addr by (auto simp: load_def cell_at_def split: if_splits)
    have a: "data_m v \<noteq> Addr c 0" using ap Loc Addr by simp
    have "Loc (Addr c k) \<noteq> r0" using ne Loc Addr by auto
    then have "cell_at hb (Addr c k) = cell_at h (Addr c k)" using fr c a by blast
    then have "load hb (Addr c k) = load h (Addr c k)" by (rule load_eq_cell)
    moreover have "data_m vb \<noteq> Addr c 0" using dm a c by auto
    ultimately show ?thesis using Loc Addr d by simp
  qed
qed

text \<open>Constructing the new element in the first free slot.\<close>

lemma place_valid:
  assumes v1: "valid v1 h1" and dv: "data_m v1 = Addr a 0" and lt: "size_m v1 < capacity_m v1"
    and b2: "\<forall>m. block_ok h2 a m = block_ok h1 a m"
    and new: "cell_at h2 (Addr a (size_m v1)) = Some (Obj x)"
    and old: "\<forall>k. k \<noteq> size_m v1 \<longrightarrow> cell_at h2 (Addr a k) = cell_at h1 (Addr a k)"
  shows "valid (v1\<lparr>size_m := size_m v1 + 1\<rparr>) h2 \<and>
         (\<forall>k. k < size_m v1 \<longrightarrow>
            load h2 (index (v1\<lparr>size_m := size_m v1 + 1\<rparr>) k) = load h1 (index v1 k)) \<and>
         load h2 (index (v1\<lparr>size_m := size_m v1 + 1\<rparr>) (size_m v1)) = Some x"
proof -
  let ?v2 = "v1\<lparr>size_m := size_m v1 + 1\<rparr>"
  have ld: "\<forall>k. load h2 (Addr a k) = (if k = size_m v1 then Some x else load h1 (Addr a k))"
    using new old by (simp add: load_def)
  have "live ?v2 h2"
    using v1 ld dv by (auto simp: valid_def live_iff index_def less_Suc_eq)
  then have "valid ?v2 h2"
    using v1 lt dv b2 by (simp add: valid_def within_def)
  then show ?thesis using ld dv by (simp add: index_def)
qed

lemma push_back_valid:
  assumes vp: "value_preserving E" and v: "valid v h"
    and ap: "apart v r" and d: "deref h r = Some x"
  shows "\<exists>v' h'. push_back E r (v, h) = Ok () (v', h') \<and> valid v' h' \<and>
           size_m v' = Suc (size_m v) \<and>
           capacity_m v' = (if size_m v < capacity_m v then capacity_m v
                            else if capacity_m v = 0 then 1 else 2 * capacity_m v) \<and>
           (\<forall>k. k < size_m v \<longrightarrow> load h' (index v' k) = load h (index v k)) \<and>
           load h' (index v' (size_m v)) = Some x \<and>
           (data_m v' = data_m v \<or> data_m v' = Addr (length h) 0) \<and>
           (\<forall>c k. c < length h \<and> data_m v \<noteq> Addr c 0 \<longrightarrow>
                  cell_at h' (Addr c k) = cell_at h (Addr c k))"
proof -
  from grow_if_full [OF vp v] obtain v1 h1 where
    r: "(if size_m v \<ge> capacity_m v
               then reserve E (if capacity_m v \<noteq> 0 then capacity_m v * 2 else 1) (v, h)
               else Ok () (v, h)) = Ok () (v1, h1)" and
    v1: "valid v1 h1" and s1: "size_m v1 = size_m v" and lt: "size_m v1 < capacity_m v1" and
    c1: "capacity_m v1 = (if size_m v < capacity_m v then capacity_m v
                          else if capacity_m v = 0 then 1 else 2 * capacity_m v)" and
    k1: "\<forall>k. k < size_m v \<longrightarrow> load h1 (index v1 k) = load h (index v k)" and
    dm: "data_m v1 = data_m v \<or> data_m v1 = Addr (length h) 0" and
    fr: "\<forall>c k. c < length h \<and> data_m v \<noteq> Addr c 0 \<longrightarrow>
               cell_at h1 (Addr c k) = cell_at h (Addr c k)"
    by blast
  from lt obtain a where dv: "data_m v1 = Addr a 0" and ba: "block_ok h1 a (capacity_m v1)"
    using valid_Addr [OF v1] by auto
  have d1: "deref h1 r = Some x"
    using ref_stable [OF ap d dm, where hb = h1 and ?r0.0 = "Ext x"] fr by simp
  let ?p = "Addr a (size_m v1)"
  let ?h2 = "put_cell h1 ?p (Obj x)"
  let ?v2 = "v1\<lparr>size_m := size_m v1 + 1\<rparr>"
  have ce: "cell_at h1 ?p \<noteq> None" using ba lt by (auto simp: cell_at_def block_ok_def)
  have cp: "copy_ctor E x = Some x" using vp by (simp add: value_preserving_def)
  have cc: "construct_copy_ref E (ptr_add (data_m v1) (size_m v1)) r h1 = Ok () ?h2"
    using ce cp dv d1 by (auto simp: construct_copy_ref_def construct_copy_def)
  have pb: "push_back E r (v, h) = Ok () (?v2, ?h2)"
    unfolding push_back_def using r cc by simp
  have alt: "a < length h1" using ba by (simp add: block_ok_def)
  have pv: "valid ?v2 ?h2 \<and>
         (\<forall>k. k < size_m v1 \<longrightarrow> load ?h2 (index ?v2 k) = load h1 (index v1 k)) \<and>
         load ?h2 (index ?v2 (size_m v1)) = Some x"
    using ce by (intro place_valid [OF v1 dv lt]) (simp_all add: block_ok_put_cell cell_at_put_cell)
  have fr2: "\<forall>c k. c < length h \<and> data_m v \<noteq> Addr c 0 \<longrightarrow>
                  cell_at ?h2 (Addr c k) = cell_at h (Addr c k)"
  proof (intro allI impI)
    fix c k assume c: "c < length h \<and> data_m v \<noteq> Addr c 0"
    then have "c \<noteq> a" using dm dv by auto
    then have "cell_at ?h2 (Addr c k) = cell_at h1 (Addr c k)"
      using ce by (simp add: cell_at_put_cell)
    then show "cell_at ?h2 (Addr c k) = cell_at h (Addr c k)" using fr c by simp
  qed
  show ?thesis using pb pv s1 c1 k1 dm fr2 by simp
qed


lemma push_all_valid:
  assumes vp: "value_preserving E"
  shows "valid v h \<Longrightarrow> size_m v = length ys \<Longrightarrow>
     (\<forall>k. k < length ys \<longrightarrow> load h (index v k) = Some (ys ! k)) \<Longrightarrow>
     list_all2 (\<lambda>r x. apart v r \<and> deref h r = Some x) rs xs \<Longrightarrow>
     \<exists>v' h'. push_all E rs (v, h) = Ok () (v', h') \<and> valid v' h' \<and>
        size_m v' = length (ys @ xs) \<and>
        (\<forall>k. k < length (ys @ xs) \<longrightarrow> load h' (index v' k) = Some ((ys @ xs) ! k))"
proof (induction rs arbitrary: v h ys xs)
  case Nil
  then show ?case by simp
next
  case (Cons r rs)
  from Cons.prems(4) obtain x xs' where xs: "xs = x # xs'" and
    ap: "apart v r" and d: "deref h r = Some x" and
    tl: "list_all2 (\<lambda>r x. apart v r \<and> deref h r = Some x) rs xs'"
    by (auto simp: list_all2_Cons1)
  from push_back_valid [OF vp Cons.prems(1) ap d] obtain v1 h1 where
    pb: "push_back E r (v, h) = Ok () (v1, h1)" and v1: "valid v1 h1" and
    s1: "size_m v1 = Suc (size_m v)" and
    k1: "\<forall>k. k < size_m v \<longrightarrow> load h1 (index v1 k) = load h (index v k)" and
    n1: "load h1 (index v1 (size_m v)) = Some x" and
    dm: "data_m v1 = data_m v \<or> data_m v1 = Addr (length h) 0" and
    fr: "\<forall>c k. c < length h \<and> data_m v \<noteq> Addr c 0 \<longrightarrow>
               cell_at h1 (Addr c k) = cell_at h (Addr c k)"
    by blast
  have tl1: "list_all2 (\<lambda>r x. apart v1 r \<and> deref h1 r = Some x) rs xs'"
  proof (rule list_all2_mono [OF tl])
    fix r' y assume "apart v r' \<and> deref h r' = Some y"
    then show "apart v1 r' \<and> deref h1 r' = Some y"
      using ref_stable [OF _ _ dm, where hb = h1 and ?r0.0 = "Ext x" and r = r' and x = y] fr
      by simp
  qed
  have s1': "size_m v1 = length (ys @ [x])" using s1 Cons.prems(2) by simp
  have c1: "\<forall>k. k < length (ys @ [x]) \<longrightarrow> load h1 (index v1 k) = Some ((ys @ [x]) ! k)"
    using k1 n1 Cons.prems(2,3) by (auto simp: nth_append less_Suc_eq)
  from Cons.IH [OF v1 s1' c1 tl1] pb xs show ?case by simp
qed




lemma trivial_ops_preserving: "value_preserving trivial_ops"
  by (simp add: value_preserving_def trivial_ops_def)







section \<open>Growth\<close>








section \<open>Assigning a value\<close>

lemma assing_loop_push_all:
  "i \<le> n \<Longrightarrow> assing_loop E r i n s = push_all E (replicate (n - i) r) s"
proof (induction "n - i" arbitrary: i s)
  case 0
  then show ?case by (simp add: assing_loop.simps)
next
  case (Suc d)
  then have lt: "i < n" and d: "d = n - Suc i" by simp_all
  have r: "replicate (n - i) r = r # replicate (n - Suc i) r"
    using lt by (simp add: Suc_diff_Suc flip: replicate_Suc)
  show ?case
    using lt Suc.hyps(1) [OF d] r
    by (subst assing_loop.simps) (simp split: outcome.splits)
qed

text \<open>
  Claim C10 says that \<^verbatim>\<open>assing(n, v)\<close> leaves \<open>n\<close> elements equal to \<open>v\<close> for every vector
  and every value.  \<^verbatim>\<open>assing\<close> takes the value by reference and reads it at each
  \<^verbatim>\<open>push_back\<close>, after \<^verbatim>\<open>clear()\<close>.  On the vector holding 4, 5 the call
  \<^verbatim>\<open>w.assing(3, w[0])\<close> passes the element holding 4; \<^verbatim>\<open>clear()\<close> destroys it
  before it is read: the call has undefined behaviour and leaves no vector of three
  elements equal to 4.
\<close>

theorem assing_alias_counterexample:
  "valid \<lparr>data_m = Addr 0 0, size_m = 2, capacity_m = 2\<rparr>
         [\<lparr>cells = [Obj (4 :: int), Obj 5], released = False\<rparr>] \<and>
   deref [\<lparr>cells = [Obj (4 :: int), Obj 5], released = False\<rparr>]
     (Loc (index \<lparr>data_m = Addr 0 0, size_m = 2, capacity_m = 2\<rparr> 0)) = Some 4 \<and>
   assing trivial_ops 3 (Loc (index \<lparr>data_m = Addr 0 0, size_m = 2, capacity_m = 2\<rparr> 0))
      (\<lparr>data_m = Addr 0 0, size_m = 2, capacity_m = 2\<rparr>,
       [\<lparr>cells = [Obj 4, Obj 5], released = False\<rparr>]) = Undefined"
  by code_simp

text \<open>
  Claim C10, amended.  For an element type whose constructors do not throw and preserve
  the value, every vector that satisfies the representation invariant, every count \<open>n\<close>
  and every value \<open>x\<close> held by an object that is not an element of the vector (an object
  outside the store or in another buffer): \<^verbatim>\<open>assing(n, x)\<close> first clears the vector,
  which destroys all its elements and sets the size to 0, and then appends \<open>x\<close> \<open>n\<close> times
  with \<^verbatim>\<open>push_back\<close>; it returns normally, and afterwards \<open>size() = n\<close> and every slot
  \<open>i < n\<close> holds \<open>x\<close>.
\<close>

theorem assing_fill:
  assumes vp: "value_preserving E" and v: "valid v h"
    and ap: "apart v r" and d: "deref h r = Some x"
  shows "\<exists>v1 h1 v' h'.
           clear (v, h) = Ok () (v1, h1) \<and> vsize v1 = 0 \<and>
           (\<forall>k. k < vsize v \<longrightarrow> cell_at h1 (index v k) = Some Raw) \<and>
           push_all E (replicate n r) (v1, h1) = Ok () (v', h') \<and>
           assing E n r (v, h) = Ok () (v', h') \<and>
           vsize v' = n \<and>
           (\<forall>i. i < n \<longrightarrow> load h' (index v' i) = Some x)"
proof -
  from v have "live v h" by (simp add: valid_def)
  from clear_live [OF this] obtain v1 h1 where
    c: "clear (v, h) = Ok () (v1, h1)" and s1: "vsize v1 = 0" and
    cap: "capacity v1 = capacity v" and d1: "data_m v1 = data_m v" and
    raw: "\<forall>k. k < vsize v \<longrightarrow> cell_at h1 (index v k) = Some Raw" and
    oth: "\<forall>q. (\<forall>k. k < vsize v \<longrightarrow> q \<noteq> index v k) \<longrightarrow> cell_at h1 q = cell_at h q" and
    b1: "\<forall>a m. block_ok h1 a m = block_ok h a m"
    by blast
  have v1: "valid v1 h1"
    using v s1 cap d1 b1
    by (simp add: valid_def within_def live_def vsize_def capacity_def split: ptr.splits)
  have ap1: "apart v1 r"
  proof (cases r)
    case (Ext y)
    then show ?thesis by simp
  next
    case (Loc p)
    then show ?thesis using ap d1 by (cases p) simp_all
  qed
  have dr1: "deref h1 r = Some x"
  proof (cases r)
    case (Ext y)
    then show ?thesis using d by simp
  next
    case (Loc p)
    have "\<forall>k. k < vsize v \<longrightarrow> p \<noteq> index v k"
    proof (cases p)
      case (Null j)
      then show ?thesis using d Loc by (simp add: load_def cell_at_def)
    next
      case (Addr c j)
      then have "data_m v \<noteq> Addr c 0" using ap Loc by simp
      then show ?thesis using v Addr
        by (cases "data_m v") (auto simp: valid_def index_def)
    qed
    then have "cell_at h1 p = cell_at h p" using oth by simp
    then have "load h1 p = load h p" by (rule load_eq_cell)
    then show ?thesis using d Loc by simp
  qed
  have z: "size_m v1 = length ([] :: 'a list)" using s1 by (simp add: vsize_def)
  have al: "list_all2 (\<lambda>r x. apart v1 r \<and> deref h1 r = Some x) (replicate n r) (replicate n x)"
    using ap1 dr1 by (simp add: list_all2_conv_all_nth)
  from push_all_valid [OF vp v1 z _ al] obtain v' h' where
    p: "push_all E (replicate n r) (v1, h1) = Ok () (v', h')" and
    s': "size_m v' = n" and
    k': "\<forall>k. k < n \<longrightarrow> load h' (index v' k) = Some x"
    by auto
  have "assing E n r (v, h) = Ok () (v', h')"
    using c p by (simp add: assing_def assing_loop_push_all)
  then show ?thesis using c s1 raw p s' k' by (simp add: vsize_def)
qed

theorem assing_fill_witness:
  "value_preserving trivial_ops \<and>
   valid \<lparr>data_m = Addr 0 0, size_m = 2, capacity_m = 2\<rparr>
         [\<lparr>cells = [Obj (4 :: int), Obj 5], released = False\<rparr>,
          \<lparr>cells = [Obj 7], released = False\<rparr>] \<and>
   apart \<lparr>data_m = Addr 0 0, size_m = 2, capacity_m = 2\<rparr> (Loc (Addr 1 0) :: int ref) \<and>
   deref [\<lparr>cells = [Obj (4 :: int), Obj 5], released = False\<rparr>,
          \<lparr>cells = [Obj 7], released = False\<rparr>] (Loc (Addr 1 0)) = Some 7 \<and>
   assing trivial_ops 3 (Loc (Addr 1 0))
      (\<lparr>data_m = Addr 0 0, size_m = 2, capacity_m = 2\<rparr>,
       [\<lparr>cells = [Obj 4, Obj 5], released = False\<rparr>,
        \<lparr>cells = [Obj 7], released = False\<rparr>]) =
     Ok () (\<lparr>data_m = Addr 2 0, size_m = 3, capacity_m = 4\<rparr>,
            [\<lparr>cells = [Raw, Raw], released = True\<rparr>,
             \<lparr>cells = [Obj 7], released = False\<rparr>,
             \<lparr>cells = [Obj 7, Obj 7, Obj 7, Raw], released = False\<rparr>]) \<and>
   (\<exists>v' h'. assing trivial_ops 3 (Loc (Addr 1 0))
      (\<lparr>data_m = Addr 0 0, size_m = 2, capacity_m = 2\<rparr>,
       [\<lparr>cells = [Obj 4, Obj 5], released = False\<rparr>,
        \<lparr>cells = [Obj 7], released = False\<rparr>]) = Ok () (v', h') \<and>
      vsize v' = 3 \<and> load h' (index v' 0) = Some 7 \<and> load h' (index v' 1) = Some 7 \<and>
      load h' (index v' 2) = Some 7)"
proof -
  have w: "valid \<lparr>data_m = Addr 0 0, size_m = 2, capacity_m = 2\<rparr>
         [\<lparr>cells = [Obj (4 :: int), Obj 5], released = False\<rparr>,
          \<lparr>cells = [Obj 7], released = False\<rparr>]"
    by code_simp
  have a: "apart \<lparr>data_m = Addr 0 0, size_m = 2, capacity_m = 2\<rparr> (Loc (Addr 1 0) :: int ref)"
    by code_simp
  have d: "deref [\<lparr>cells = [Obj (4 :: int), Obj 5], released = False\<rparr>,
          \<lparr>cells = [Obj 7], released = False\<rparr>] (Loc (Addr 1 0)) = Some 7"
    by code_simp
  have e: "assing trivial_ops 3 (Loc (Addr 1 0))
      (\<lparr>data_m = Addr 0 0, size_m = 2, capacity_m = 2\<rparr>,
       [\<lparr>cells = [Obj 4, Obj 5], released = False\<rparr>,
        \<lparr>cells = [Obj 7], released = False\<rparr>]) =
     Ok () (\<lparr>data_m = Addr 2 0, size_m = 3, capacity_m = 4\<rparr>,
            [\<lparr>cells = [Raw, Raw], released = True\<rparr>,
             \<lparr>cells = [Obj 7], released = False\<rparr>,
             \<lparr>cells = [Obj 7, Obj 7, Obj 7, Raw], released = False\<rparr>])"
    by code_simp
  from assing_fill [OF trivial_ops_preserving w a d, of 3]
  have "\<exists>v' h'. assing trivial_ops 3 (Loc (Addr 1 0))
      (\<lparr>data_m = Addr 0 0, size_m = 2, capacity_m = 2\<rparr>,
       [\<lparr>cells = [Obj 4, Obj 5], released = False\<rparr>,
        \<lparr>cells = [Obj 7], released = False\<rparr>]) = Ok () (v', h') \<and>
      vsize v' = 3 \<and> load h' (index v' 0) = Some 7 \<and> load h' (index v' 1) = Some 7 \<and>
      load h' (index v' 2) = Some 7"
    by fastforce
  then show ?thesis using w a d e trivial_ops_preserving by blast
qed

section \<open>Further facts on the operations\<close>

text \<open>
  What move assignment, \<^verbatim>\<open>resize\<close> and a throwing \<^verbatim>\<open>shrink_to_fit\<close> do on every
  input: a move assignment that returns leaves \<open>this\<close> empty and \<open>other\<close> as it was; a
  growing \<^verbatim>\<open>resize\<close> changes the size only and leaves the store as it is; a shrinking
  \<^verbatim>\<open>resize\<close> destroys exactly the elements from the new size on; \<^verbatim>\<open>shrink_to_fit\<close>
  that throws leaves the members of the vector as they were.
\<close>

lemma move_assign_result:
  "move_assign this other h = Ok u (this', other', h') \<Longrightarrow>
     this' = this\<lparr>data_m := Null 0, size_m := 0, capacity_m := 0\<rparr> \<and> other' = other"
  by (auto simp: move_assign_def clear_def Let_def split: outcome.splits option.splits)

lemma resize_grow_keeps_store:
  "size_m v < n \<Longrightarrow> resize E n (v, h) = Ok () (v\<lparr>size_m := n\<rparr>, h)"
  by (simp add: resize_def default_range.simps)

lemma resize_shrink_destroys:
  assumes "live v h" and "n < size_m v"
  shows "\<exists>h'. resize E n (v, h) = Ok () (v\<lparr>size_m := n\<rparr>, h') \<and>
           (\<forall>k. n \<le> k \<and> k < size_m v \<longrightarrow> cell_at h' (index v k) = Some Raw) \<and>
           (\<forall>q. (\<forall>k. n \<le> k \<and> k < size_m v \<longrightarrow> q \<noteq> index v k) \<longrightarrow>
                cell_at h' q = cell_at h q)"
proof -
  from assms have "\<forall>k. n \<le> k \<and> k < size_m v \<longrightarrow> load h (ptr_add (data_m v) k) \<noteq> None"
    by (simp add: live_def list_all_iff index_def)
  from destroy_range_live [OF this] obtain h' where
    "destroy_range (data_m v) n (size_m v) h = Some h'"
    "\<forall>k. n \<le> k \<and> k < size_m v \<longrightarrow> cell_at h' (ptr_add (data_m v) k) = Some Raw"
    "\<forall>q. (\<forall>k. n \<le> k \<and> k < size_m v \<longrightarrow> q \<noteq> ptr_add (data_m v) k) \<longrightarrow>
             cell_at h' q = cell_at h q"
    by blast
  then show ?thesis using assms(2) by (simp add: resize_def index_def)
qed

lemma resize_sets_size:
  "resize E n (v, h) = Ok u (v', h') \<Longrightarrow> size_m v' = n \<and> capacity_m v' = capacity_m v"
  by (auto simp: resize_def split: if_splits option.splits outcome.splits)

lemma shrink_to_fit_Throw:
  "shrink_to_fit E (v, h) = Throw e (v', h') \<Longrightarrow> v' = v"
  by (auto simp: shrink_to_fit_def allocate_def Let_def split: if_splits option.splits outcome.splits)

end
